(* ===== verification/Prelude.thy ===== *)
theory Prelude
  imports Complex_Main "HOL-Library.AList" "HOL-Library.List_Lexorder" "HOL-Library.Char_ord"
    "HOL-Library.Code_Target_Numeral"
begin

text \<open>
  Shared vocabulary of the development of \<open>src/task.py\<close>: how a run of the script can
  stop (an \<open>exit(-1)\<close> of the script, an uncaught Python exception, or an input outside
  the modelled fragment), the result type \<open>'a res\<close> that threads these failures through
  the pipeline in the order the code performs its steps, a fail-fast traversal of lists
  (pandas' element-wise \<open>apply\<close> and Python's \<open>for\<close> loops stop at the first exception),
  and order-preserving duplicate removal (Python dict keys, pandas column order).
\<close>

named_theorems pipeline_simps "unfolding facts of the pipeline's operations"

section \<open>Failures\<close>

text \<open>
  \<open>py_exc\<close> names the exceptions the code can raise without catching them.
  \<open>failure\<close> adds the two explicit \<open>exit(-1)\<close> calls of the script (after a JSON decoding
  error, \<open>task.py\<close> line 43, and after a failed DataFrame check, line 79) and
  \<open>Outside_Model\<close>, returned where the input holds a value whose Python semantics the
  model does not follow (for example a float age): it is never the result of an input
  of the modelled fragment, and no theorem treats it as a behaviour of the code.
  \<open>Fuel_Exhausted\<close> is the value of a recursion of the model that ran out of fuel (the
  recursive JSON scanner); a lemma on each such recursion shows that the fuel the model
  gives it is enough, so it is never the result of a run.
\<close>

datatype py_exc = TypeError | KeyError | IndexError | ValueError | NotImplementedError
  | ConnectionError | FileNotFoundError | OverflowError | JSONDecodeError

datatype failure = DecodeExit | CheckExit | Raised py_exc | Outside_Model | Fuel_Exhausted

type_synonym 'a res = "failure + 'a"

definition raise :: "py_exc \<Rightarrow> 'a res" where
  "raise e = Inl (Raised e)"

definition res_bind :: "'a res \<Rightarrow> ('a \<Rightarrow> 'b res) \<Rightarrow> 'b res" where
  "res_bind m f = (case m of Inl e \<Rightarrow> Inl e | Inr x \<Rightarrow> f x)"

text \<open>Fail-fast traversal: the first element whose step fails stops the loop.\<close>

fun mapM_res :: "('a \<Rightarrow> 'b res) \<Rightarrow> 'a list \<Rightarrow> 'b list res" where
  "mapM_res f [] = Inr []"
| "mapM_res f (x # xs) = res_bind (f x) (\<lambda>y. res_bind (mapM_res f xs) (\<lambda>ys. Inr (y # ys)))"

text \<open>Python's \<open>xs[0]\<close>: \<open>IndexError\<close> on an empty list.\<close>

definition py_index0 :: "'a list \<Rightarrow> 'a res" where
  "py_index0 xs = (case xs of [] \<Rightarrow> raise IndexError | x # _ \<Rightarrow> Inr x)"

text \<open>
  Keys in order of first appearance, as a Python dict or pandas'
  \<open>fast_unique_multiple_list_gen\<close> collects them: a seen-list extended at its end.
\<close>

primrec add_unique :: "'a list \<Rightarrow> 'a list \<Rightarrow> 'a list" where
  "add_unique [] acc = acc"
| "add_unique (x # xs) acc = add_unique xs (if x \<in> set acc then acc else acc @ [x])"

text \<open>
  Python's \<open>max(items, key=f)\<close> (and numpy's \<open>argmax\<close>): a scan that replaces its
  candidate only by an item with a strictly larger key, so the first maximal item wins.
\<close>

primrec max_by :: "('a \<Rightarrow> 'k::linorder) \<Rightarrow> 'a \<Rightarrow> 'a list \<Rightarrow> 'a" where
  "max_by f best [] = best"
| "max_by f best (p # ps) = max_by f (if f best < f p then p else best) ps"

section \<open>Lemmas on results\<close>

lemma res_bind_Inl [simp, pipeline_simps]: "res_bind (Inl e) f = Inl e"
  by (simp add: res_bind_def)

lemma res_bind_Inr [simp, pipeline_simps]: "res_bind (Inr x) f = f x"
  by (simp add: res_bind_def)

lemma raise_res_bind [simp, pipeline_simps]: "res_bind (raise e) f = raise e"
  by (simp add: raise_def)

lemma raise_not_Inr [simp]: "raise e \<noteq> Inr x"
  by (simp add: raise_def)

lemma raise_eq_iff [simp]: "raise e = raise e' \<longleftrightarrow> e = e'"
  by (simp add: raise_def)

lemma res_bind_eq_Inr:
  "res_bind m f = Inr y \<longleftrightarrow> (\<exists>x. m = Inr x \<and> f x = Inr y)"
  by (cases m) auto

lemma res_bind_eq_Inl:
  "res_bind m f = Inl e \<longleftrightarrow> m = Inl e \<or> (\<exists>x. m = Inr x \<and> f x = Inl e)"
  by (cases m) auto

lemma mapM_res_Inr_iff:
  "mapM_res f xs = Inr ys \<longleftrightarrow> list_all2 (\<lambda>x y. f x = Inr y) xs ys"
proof (induction xs arbitrary: ys)
  case Nil
  then show ?case by auto
next
  case (Cons x xs)
  then show ?case
    by (cases ys) (auto simp: res_bind_eq_Inr)
qed

lemma list_all2_in_set1:
  "list_all2 P xs ys \<Longrightarrow> x \<in> set xs \<Longrightarrow> \<exists>y. P x y"
  by (induction xs arbitrary: ys) (auto simp: list_all2_Cons1)

lemma mapM_res_map:
  "(\<And>x. x \<in> set xs \<Longrightarrow> f x = Inr (g x)) \<Longrightarrow> mapM_res f xs = Inr (map g xs)"
  by (induction xs) auto

lemma mapM_res_map_map:
  "(\<And>x. x \<in> set xs \<Longrightarrow> f (h x) = Inr (g x)) \<Longrightarrow> mapM_res f (map h xs) = Inr (map g xs)"
  by (induction xs) auto

lemma mapM_res_length:
  "mapM_res f xs = Inr ys \<Longrightarrow> length ys = length xs"
  by (auto simp: mapM_res_Inr_iff dest: list_all2_lengthD)

lemma mapM_res_Inl:
  "x \<in> set xs \<Longrightarrow> f x = Inl e \<Longrightarrow> \<exists>e'. mapM_res f xs = Inl e'"
  by (induction xs) (auto simp: res_bind_def split: sum.splits)

lemma mapM_res_raise:
  assumes "\<forall>y \<in> set xs. f y = raise e \<or> (\<exists>z. f y = Inr z)"
    and "x \<in> set xs" and "f x = raise e"
  shows "mapM_res f xs = raise e"
  using assms
proof (induction xs)
  case Nil
  then show ?case by simp
next
  case (Cons y ys)
  show ?case
  proof (cases "f y = raise e")
    case True
    then show ?thesis by simp
  next
    case False
    with Cons.prems obtain z where z: "f y = Inr z" by auto
    with Cons.prems False have "x \<in> set ys" by auto
    with Cons have "mapM_res f ys = raise e" by simp
    with z show ?thesis by simp
  qed
qed

lemma py_index0_Inr [simp]: "py_index0 (x # xs) = Inr x"
  by (simp add: py_index0_def)

lemma py_index0_Nil [simp]: "py_index0 [] = raise IndexError"
  by (simp add: py_index0_def)

section \<open>Lemmas on order-preserving duplicate removal\<close>

lemma set_add_unique [simp]: "set (add_unique xs acc) = set acc \<union> set xs"
  by (induction xs arbitrary: acc) auto

lemma distinct_add_unique: "distinct acc \<Longrightarrow> distinct (add_unique xs acc)"
  by (induction xs arbitrary: acc) auto

lemma add_unique_append: "add_unique (xs @ ys) acc = add_unique ys (add_unique xs acc)"
  by (induction xs arbitrary: acc) auto

lemma add_unique_prefix: "\<exists>zs. add_unique xs acc = acc @ zs"
proof (induction xs arbitrary: acc)
  case Nil
  then show ?case by simp
next
  case (Cons x xs)
  obtain zs where zs: "add_unique xs (if x \<in> set acc then acc else acc @ [x]) =
      (if x \<in> set acc then acc else acc @ [x]) @ zs"
    using Cons.IH by blast
  show ?case
  proof (cases "x \<in> set acc")
    case True
    with zs show ?thesis by auto
  next
    case False
    with zs have "add_unique (x # xs) acc = acc @ (x # zs)" by simp
    then show ?thesis by blast
  qed
qed

lemma add_unique_snoc:
  "add_unique (xs @ [x]) acc =
     (if x \<in> set acc \<union> set xs then add_unique xs acc else add_unique xs acc @ [x])"
  by (simp add: add_unique_append)

section \<open>The first maximum\<close>

lemma max_by_spec:
  "max_by f p ps \<in> set (p # ps) \<and>
   (\<forall>z \<in> set (p # ps). f z \<le> f (max_by f p ps)) \<and>
   (\<exists>pre post. p # ps = pre @ max_by f p ps # post \<and>
      (\<forall>z \<in> set pre. f z < f (max_by f p ps)))"
proof (induction ps arbitrary: p)
  case Nil
  show ?case by (auto intro: exI [of _ "[]"])
next
  case (Cons q ps)
  let ?p' = "if f p < f q then q else p"
  let ?r = "max_by f ?p' ps"
  obtain pre post where dec: "?p' # ps = pre @ ?r # post"
    and pre: "\<forall>z \<in> set pre. f z < f ?r"
    using Cons.IH [of ?p'] by blast
  have mem: "?r \<in> set (?p' # ps)" and ge: "\<forall>z \<in> set (?p' # ps). f z \<le> f ?r"
    using Cons.IH [of ?p'] by blast+
  have "\<exists>pre post. p # q # ps = pre @ ?r # post \<and> (\<forall>z \<in> set pre. f z < f ?r)"
  proof (cases "f p < f q")
    case True
    with ge have "f p < f ?r" by fastforce
    with True dec pre show ?thesis
      by (intro exI [of _ "p # pre"] exI [of _ post]) auto
  next
    case False
    show ?thesis
    proof (cases pre)
      case Nil
      with False dec show ?thesis
        by (intro exI [of _ "[]"] exI [of _ "q # ps"]) auto
    next
      case (Cons p1 pre')
      with False dec pre have "f q < f ?r" by fastforce
      with Cons False dec pre show ?thesis
        by (intro exI [of _ "p # q # pre'"] exI [of _ post]) auto
    qed
  qed
  with mem ge show ?case by auto
qed

end
