(* ===== verification/Frequency.thy ===== *)
theory Frequency
  imports Prelude
begin

text \<open>
  Python's \<open>collections.Counter\<close> as \<open>process_json\<close> uses it (\<open>task.py\<close> lines 95-98 for
  the names, 106-108 for the hobbies): \<open>Counter(xs)\<close> runs \<open>_count_elements\<close>, which
  stores \<open>mapping[elem] = mapping.get(elem, 0) + 1\<close> for each element, so the keys keep
  the order of their first occurrence; \<open>most_common(1)\<close> is
  \<open>heapq.nlargest(1, items, key=itemgetter(1))\<close>, which for \<open>n = 1\<close> is Python's \<open>max\<close>
  over the items (\<open>max_by snd\<close>): it replaces its candidate only by a strictly larger count, so the first
  item of maximal count wins, and it returns \<open>[]\<close> on an empty counter.
  The counter is an association list (a Python dict) updated by \<open>AList.update\<close>, which
  keeps the position of a key already present, as a dict assignment does.
  The theory proves the counter equal to a reference counting function and
  \<open>most_common(1)\<close> equal to "the first element of the input, in input order, whose count
  is the maximal count".
\<close>

type_synonym 'a counter = "('a \<times> nat) list"

section \<open>The operations\<close>

definition counter_get :: "'a counter \<Rightarrow> 'a \<Rightarrow> nat" where
  "counter_get m x = (case map_of m x of None \<Rightarrow> 0 | Some c \<Rightarrow> c)"

fun count_elements :: "'a counter \<Rightarrow> 'a list \<Rightarrow> 'a counter" where
  "count_elements m [] = m"
| "count_elements m (x # xs) = count_elements (AList.update x (counter_get m x + 1) m) xs"

definition Counter :: "'a list \<Rightarrow> 'a counter" where
  "Counter xs = count_elements [] xs"

definition most_common1 :: "'a counter \<Rightarrow> ('a \<times> nat) list" where
  "most_common1 c = (case c of [] \<Rightarrow> [] | p # ps \<Rightarrow> [max_by snd p ps])"

declare Counter_def [pipeline_simps] counter_get_def [pipeline_simps] most_common1_def [pipeline_simps]

section \<open>Reference definitions\<close>

text \<open>
  The reference counter pairs each distinct element, in order of first occurrence, with
  its number of occurrences; the reference "most common" element is the first element of
  the input whose count is the largest count.
\<close>

definition counter_spec :: "'a list \<Rightarrow> 'a counter" where
  "counter_spec xs = map (\<lambda>x. (x, count_list xs x)) (add_unique xs [])"

definition max_count :: "'a list \<Rightarrow> nat" where
  "max_count xs = foldr (\<lambda>x m. max (count_list xs x) m) xs 0"

definition most_common_ref :: "'a list \<Rightarrow> ('a \<times> nat) list" where
  "most_common_ref xs =
     (case List.find (\<lambda>x. count_list xs x = max_count xs) xs of
        None \<Rightarrow> []
      | Some x \<Rightarrow> [(x, count_list xs x)])"

section \<open>Lemmas\<close>

lemma map_of_pairs:
  "map_of (map (\<lambda>k. (k, f k)) ks) x = (if x \<in> set ks then Some (f x) else None)"
  by (induction ks) auto

lemma update_pairs:
  "distinct ks \<Longrightarrow> AList.update x v (map (\<lambda>k. (k, f k)) ks) =
     (if x \<in> set ks then map (\<lambda>k. (k, if k = x then v else f k)) ks
      else map (\<lambda>k. (k, f k)) ks @ [(x, v)])"
  by (induction ks) auto

lemma counter_get_spec: "counter_get (counter_spec ys) x = count_list ys x"
  by (simp add: counter_get_def counter_spec_def map_of_pairs count_list_0_iff)

lemma counter_spec_snoc:
  "AList.update x (Suc (count_list ys x)) (counter_spec ys) = counter_spec (ys @ [x])"
proof -
  have d: "distinct (add_unique ys [])" by (simp add: distinct_add_unique)
  show ?thesis
    using d by (auto simp: counter_spec_def update_pairs add_unique_snoc)
qed

lemma count_elements_spec:
  "count_elements (counter_spec ys) xs = counter_spec (ys @ xs)"
proof (induction xs arbitrary: ys)
  case Nil
  then show ?case by simp
next
  case (Cons x xs)
  have "count_elements (counter_spec ys) (x # xs) =
      count_elements (counter_spec (ys @ [x])) xs"
    by (simp add: counter_get_spec counter_spec_snoc)
  also have "\<dots> = counter_spec (ys @ x # xs)"
    using Cons.IH by simp
  finally show ?case .
qed

lemma find_append_res:
  "List.find P (xs @ ys) = (case List.find P xs of None \<Rightarrow> List.find P ys | Some y \<Rightarrow> Some y)"
  by (induction xs) auto

lemma find_add_unique:
  "List.find P (add_unique xs acc) =
     (case List.find P acc of None \<Rightarrow> List.find P xs | Some y \<Rightarrow> Some y)"
proof (induction xs arbitrary: acc)
  case Nil
  then show ?case by (simp split: option.splits)
next
  case (Cons x xs)
  show ?case
  proof (cases "x \<in> set acc")
    case True
    then have "List.find P acc = None \<Longrightarrow> \<not> P x" by (auto simp: find_None_iff)
    with True Cons.IH show ?thesis by (auto split: option.splits)
  next
    case False
    then show ?thesis
      using Cons.IH [of "acc @ [x]"] by (auto simp: find_append_res split: option.splits)
  qed
qed

lemma find_split:
  "(\<forall>z \<in> set pre. \<not> P z) \<Longrightarrow> P x \<Longrightarrow> List.find P (pre @ x # post) = Some x"
  by (induction pre) auto

lemma max_count_ge: "x \<in> set xs \<Longrightarrow> count_list xs x \<le> max_count xs"
proof -
  have "\<forall>y \<in> set ys. count_list xs y \<le> foldr (\<lambda>x m. max (count_list xs x) m) ys 0" for ys
    by (induction ys) auto
  then show "x \<in> set xs \<Longrightarrow> count_list xs x \<le> max_count xs"
    by (simp add: max_count_def)
qed

lemma max_count_attained:
  "xs \<noteq> [] \<Longrightarrow> \<exists>x \<in> set xs. count_list xs x = max_count xs"
proof -
  have "ys \<noteq> [] \<Longrightarrow> \<exists>y \<in> set ys. count_list xs y = foldr (\<lambda>x m. max (count_list xs x) m) ys 0"
    for ys
  proof (induction ys)
    case Nil
    then show ?case by simp
  next
    case (Cons y ys)
    then show ?case by (cases ys) (auto simp: max_def)
  qed
  then show "xs \<noteq> [] \<Longrightarrow> \<exists>x \<in> set xs. count_list xs x = max_count xs"
    by (simp add: max_count_def)
qed

lemma set_counter_spec_fst: "map fst (counter_spec xs) = add_unique xs []"
  by (simp add: counter_spec_def comp_def)


lemma counter_spec_Nil [simp]: "counter_spec [] = []"
  by (simp add: counter_spec_def)

lemma add_unique_Nil_iff: "add_unique xs [] = [] \<longleftrightarrow> xs = []"
proof -
  have "set (add_unique xs []) = set xs" by simp
  then show ?thesis by (metis set_empty)
qed

lemma most_common1_counter_spec:
  assumes "xs \<noteq> []"
  shows "most_common1 (counter_spec xs) = most_common_ref xs"
proof -
  let ?cnt = "count_list xs"
  let ?P = "\<lambda>x. ?cnt x = max_count xs"
  obtain k0 ks' where ks: "add_unique xs [] = k0 # ks'"
    using assms add_unique_Nil_iff by (metis list.exhaust)
  have setks: "set (k0 # ks') = set xs"
  proof -
    have "set (add_unique xs []) = set xs" by simp
    then show ?thesis by (simp only: ks)
  qed
  define items where "items = map (\<lambda>x. (x, ?cnt x)) (k0 # ks')"
  define r where "r = max_by snd (hd items) (tl items)"
  have items: "counter_spec xs = items" by (simp add: counter_spec_def ks items_def)
  have cons: "hd items # tl items = items" by (simp add: items_def)
  have mem: "r \<in> set items" and ge: "\<forall>z \<in> set items. snd z \<le> snd r"
    and "\<exists>pre post. items = pre @ r # post \<and> (\<forall>z \<in> set pre. snd z < snd r)"
    using max_by_spec [of snd "hd items" "tl items", unfolded cons, folded r_def] by blast+
  then obtain pre post where dec: "items = pre @ r # post"
    and pre: "\<forall>z \<in> set pre. snd z < snd r"
    by blast
  from mem obtain k where k: "r = (k, ?cnt k)" "k \<in> set xs"
    using setks by (auto simp: items_def)
  have kmax: "?cnt k = max_count xs"
  proof (rule antisym)
    show "?cnt k \<le> max_count xs" using k(2) by (rule max_count_ge)
    obtain x where x: "x \<in> set xs" "?cnt x = max_count xs"
      using max_count_attained [OF assms] by blast
    have "x \<in> set (k0 # ks')" using x(1) by (simp only: setks)
    then have "(x, ?cnt x) \<in> set items" by (auto simp: items_def)
    with ge k(1) x(2) show "max_count xs \<le> ?cnt k" by fastforce
  qed
  have fsts: "map fst items = map fst pre @ k # map fst post"
    using dec k(1) by simp
  have "\<forall>z \<in> set (map fst pre). \<not> ?P z"
  proof
    fix z assume "z \<in> set (map fst pre)"
    then obtain p where p: "p \<in> set pre" "z = fst p" by auto
    then have "p \<in> set items" using dec by simp
    then have "snd p = ?cnt z" using p(2) by (auto simp: items_def)
    with pre p(1) k(1) kmax show "\<not> ?P z" by fastforce
  qed
  then have "List.find ?P (map fst items) = Some k"
    using kmax fsts by (simp only: find_split)
  moreover have "map fst items = add_unique xs []" by (simp add: ks items_def comp_def)
  ultimately have "List.find ?P xs = Some k"
    using find_add_unique [of ?P xs "[]"] by simp
  moreover have "most_common1 (hd items # tl items) = [r]"
    by (simp add: most_common1_def r_def)
  then have "most_common1 items = [r]" by (simp only: cons)
  ultimately show ?thesis
    using items k(1) by (simp add: most_common_ref_def)
qed

lemma Counter_counter_spec: "Counter xs = counter_spec xs"
  using count_elements_spec [of "[]" xs] by (simp add: Counter_def)

lemma most_common1_Counter_ref: "most_common1 (Counter xs) = most_common_ref xs"
proof (cases "xs = []")
  case True
  then show ?thesis
    by (simp add: Counter_def most_common1_def most_common_ref_def)
next
  case False
  then show ?thesis
    by (simp add: Counter_counter_spec most_common1_counter_spec)
qed

lemma find_Some_split:
  "List.find P xs = Some x \<longleftrightarrow> (\<exists>pre post. xs = pre @ x # post \<and> P x \<and> (\<forall>y \<in> set pre. \<not> P y))"
proof
  assume "List.find P xs = Some x"
  then show "\<exists>pre post. xs = pre @ x # post \<and> P x \<and> (\<forall>y \<in> set pre. \<not> P y)"
  proof (induction xs)
    case Nil
    then show ?case by simp
  next
    case (Cons y ys)
    show ?case
    proof (cases "P y")
      case True
      with Cons.prems have "x = y" by simp
      with True show ?thesis by (intro exI [of _ "[]"] exI [of _ ys]) simp
    next
      case False
      with Cons.prems have "List.find P ys = Some x" by simp
      then obtain pre post where "ys = pre @ x # post" "P x" "\<forall>y \<in> set pre. \<not> P y"
        using Cons.IH by blast
      with False show ?thesis by (intro exI [of _ "y # pre"] exI [of _ post]) simp
    qed
  qed
next
  assume "\<exists>pre post. xs = pre @ x # post \<and> P x \<and> (\<forall>y \<in> set pre. \<not> P y)"
  then obtain pre post where d: "xs = pre @ x # post" "P x" "\<forall>y \<in> set pre. \<not> P y"
    by blast
  from d(3,2) have "List.find P (pre @ x # post) = Some x" by (rule find_split)
  with d(1) show "List.find P xs = Some x" by simp
qed

lemma most_common_ref_Nil_iff: "most_common_ref xs = [] \<longleftrightarrow> xs = []"
proof
  assume "most_common_ref xs = []"
  then have "List.find (\<lambda>x. count_list xs x = max_count xs) xs = None"
    by (simp add: most_common_ref_def split: option.splits)
  then show "xs = []" using max_count_attained by (force simp: find_None_iff)
qed (simp add: most_common_ref_def)

lemma most_common_ref_props:
  assumes "most_common_ref xs = [(x, c)]"
  shows "x \<in> set xs \<and> c = count_list xs x \<and> (\<forall>y. count_list xs y \<le> c)"
proof -
  from assms have f: "List.find (\<lambda>x. count_list xs x = max_count xs) xs = Some x"
    and c: "c = count_list xs x"
    by (auto simp: most_common_ref_def split: option.splits)
  from f have x: "x \<in> set xs" and m: "count_list xs x = max_count xs"
    by (auto simp: find_Some_iff)
  have "count_list xs y \<le> c" for y
  proof (cases "y \<in> set xs")
    case True
    then show ?thesis using max_count_ge [OF True] m c by simp
  next
    case False
    then show ?thesis by simp
  qed
  with x c show ?thesis by blast
qed

lemma most_common_ref_cases: "most_common_ref xs = [] \<or> (\<exists>x c. most_common_ref xs = [(x, c)])"
  by (auto simp: most_common_ref_def split: option.splits)

section \<open>Properties\<close>

text \<open>
  C31: \<open>Counter(xs)\<close> maps each element to its number of occurrences in \<open>xs\<close>
  (\<open>mapping.get(x, 0)\<close> reads 0 for an absent one), and its keys are the distinct elements
  of \<open>xs\<close> in order of first occurrence.
\<close>

theorem Counter_get_count:
  "counter_get (Counter xs) x = count_list xs x \<and> map fst (Counter xs) = add_unique xs []"
  by (simp add: Counter_counter_spec counter_get_spec set_counter_spec_fst)

text \<open>
  C3: \<open>Counter(xs).most_common(1)\<close> is \<open>[(x, c)]\<close> exactly when \<open>c\<close> is the count of
  \<open>x\<close>, no element of \<open>xs\<close> occurs more often than \<open>c\<close> times, and every element before the
  first occurrence of \<open>x\<close> occurs fewer times: the tie-break is the earliest first
  occurrence.
\<close>

theorem most_common_first_max:
  "most_common1 (Counter xs) = [(x, c)] \<longleftrightarrow>
     (\<exists>pre post. xs = pre @ x # post \<and> c = count_list xs x \<and>
        (\<forall>y \<in> set xs. count_list xs y \<le> c) \<and> (\<forall>y \<in> set pre. count_list xs y < c))"
proof -
  let ?P = "\<lambda>x. count_list xs x = max_count xs"
  have "most_common1 (Counter xs) = [(x, c)] \<longleftrightarrow> List.find ?P xs = Some x \<and> c = count_list xs x"
    by (auto simp: most_common1_Counter_ref most_common_ref_def split: option.splits)
  also have "\<dots> \<longleftrightarrow> (\<exists>pre post. xs = pre @ x # post \<and> c = count_list xs x \<and>
        (\<forall>y \<in> set xs. count_list xs y \<le> c) \<and> (\<forall>y \<in> set pre. count_list xs y < c))"
  proof
    assume "List.find ?P xs = Some x \<and> c = count_list xs x"
    then obtain pre post where d: "xs = pre @ x # post" "?P x" "\<forall>y \<in> set pre. \<not> ?P y"
      and c: "c = count_list xs x"
      by (auto simp: find_Some_split)
    have le: "\<forall>y \<in> set xs. count_list xs y \<le> c"
      using d(2) c max_count_ge [of _ xs] by simp
    have "\<forall>y \<in> set pre. count_list xs y < c"
    proof
      fix y assume y: "y \<in> set pre"
      then have "y \<in> set xs" using d(1) by simp
      with le d(3) y d(2) c show "count_list xs y < c" by (simp add: order_less_le)
    qed
    with d(1) c le show "\<exists>pre post. xs = pre @ x # post \<and> c = count_list xs x \<and>
        (\<forall>y \<in> set xs. count_list xs y \<le> c) \<and> (\<forall>y \<in> set pre. count_list xs y < c)"
      by blast
  next
    assume "\<exists>pre post. xs = pre @ x # post \<and> c = count_list xs x \<and>
        (\<forall>y \<in> set xs. count_list xs y \<le> c) \<and> (\<forall>y \<in> set pre. count_list xs y < c)"
    then obtain pre post where d: "xs = pre @ x # post" "c = count_list xs x"
      "\<forall>y \<in> set xs. count_list xs y \<le> c" "\<forall>y \<in> set pre. count_list xs y < c"
      by blast
    have "xs \<noteq> []" using d(1) by simp
    then obtain y where y: "y \<in> set xs" "count_list xs y = max_count xs"
      using max_count_attained by blast
    from d(3) y(1) have "count_list xs y \<le> c" by blast
    with y(2) have m1: "max_count xs \<le> c" by simp
    have "x \<in> set xs" using d(1) by simp
    then have "c \<le> max_count xs" using d(2) by (simp add: max_count_ge)
    with m1 have m: "max_count xs = c" by (rule antisym)
    have px: "?P x" using m d(2) by simp
    have npre: "\<forall>z \<in> set pre. \<not> ?P z"
    proof
      fix z assume "z \<in> set pre"
      with d(4) have "count_list xs z < c" by blast
      with m show "\<not> ?P z" by simp
    qed
    have "\<exists>pre post. xs = pre @ x # post \<and> ?P x \<and> (\<forall>y \<in> set pre. \<not> ?P y)"
      using d(1) px npre by blast
    then have "List.find ?P xs = Some x"
      by (rule find_Some_split [THEN iffD2])
    then show "List.find ?P xs = Some x \<and> c = count_list xs x" using d(2) by blast
  qed
  finally show ?thesis .
qed

text \<open>
  \<open>most_common(1)\<close> is empty exactly on an empty input, the case in which the code's
  \<open>most_common(1)[0]\<close> raises \<open>IndexError\<close>.
\<close>

theorem most_common_empty_iff: "most_common1 (Counter xs) = [] \<longleftrightarrow> xs = []"
  by (simp add: most_common1_Counter_ref most_common_ref_Nil_iff)

section \<open>Witnesses\<close>

text \<open>
  Names \<open>[a, b, b, a]\<close>: both occur twice; \<open>a\<close> occurs first and is the most common
  name, although \<open>b\<close> is the first to reach the count 2.
\<close>

theorem most_common_first_max_witness:
  "most_common1 (Counter [''a'', ''b'', ''b'', ''a'']) = [(''a'', 2)]"
proof -
  have "[''a'', ''b'', ''b'', ''a''] = [] @ ''a'' # [''b'', ''b'', ''a''] \<and>
        2 = count_list [''a'', ''b'', ''b'', ''a''] ''a'' \<and>
        (\<forall>y \<in> set [''a'', ''b'', ''b'', ''a'']. count_list [''a'', ''b'', ''b'', ''a''] y \<le> 2) \<and>
        (\<forall>y \<in> set []. count_list [''a'', ''b'', ''b'', ''a''] y < 2)"
    by simp
  then show ?thesis
    using most_common_first_max [of "[''a'', ''b'', ''b'', ''a'']" "''a''" 2] by blast
qed

end
