(* ===== verification/Json.thy ===== *)
theory Json
  imports Prelude
begin

text \<open>
  Decoded JSON values and the DataFrame that \<open>process_json\<close> builds from them
  (\<open>task.py\<close> line 76, \<open>df = pd.json_normalize(json)\<close>).
  A JSON object is the list of its items (a Python dict; the decoder gives distinct keys),
  a float is kept as its literal, since no modelled step computes with it.
  \<open>json_normalize\<close> is modelled as pandas 2.x runs it without \<open>record_path\<close>/\<open>meta\<close>:
  an empty list gives the empty DataFrame, a value that is neither a list nor a dict
  raises \<open>NotImplementedError\<close> (this is what \<open>None\<close> from a failed request meets), and
  otherwise \<open>_simple_json_normalize\<close> flattens each row: \<open>_normalise_json_object\<close> keeps
  the non-dict items of the row first and then the flattened nested dicts, whose keys are
  joined by \<open>"."\<close> (\<open>_normalise_json\<close>); an empty nested dict disappears; a row that is not
  a dict becomes the empty row. The DataFrame's columns are the row keys in order of first
  appearance, and a cell that a row lacks is NaN (here \<open>None\<close>).
\<close>

datatype json =
    JNull
  | JBool bool
  | JInt int
  | JFloat string
  | JStr string
  | JArr "json list"
  | JObj "(string \<times> json) list"

type_synonym row = "(string \<times> json) list"

record frame =
  df_columns :: "string list"
  df_rows :: "row list"

section \<open>Flattening nested dicts\<close>

fun is_obj :: "json \<Rightarrow> bool" where
  "is_obj (JObj _) = True"
| "is_obj _ = False"

definition nested_key :: "string \<Rightarrow> string \<Rightarrow> string" where
  "nested_key key k = (if key = [] then k else key @ ''.'' @ k)"

text \<open>
  \<open>_normalise_json(data, key_string, normalized_dict, ".")\<close>: a dict is walked item by
  item with the joined key; any other value is stored under the key reached.
\<close>

fun normalise_json :: "string \<Rightarrow> json \<Rightarrow> row \<Rightarrow> row"
  and normalise_items :: "string \<Rightarrow> (string \<times> json) list \<Rightarrow> row \<Rightarrow> row" where
  "normalise_json key (JObj kvs) acc = normalise_items key kvs acc"
| "normalise_json key v acc = AList.update key v acc"
| "normalise_items key [] acc = acc"
| "normalise_items key ((k, v) # kvs) acc =
     normalise_items key kvs (normalise_json (nested_key key k) v acc)"

text \<open>A dict built by successive assignments (a comprehension, or \<open>{**a, **b}\<close> onto \<open>a\<close>).\<close>

definition dict_updates :: "(string \<times> json) list \<Rightarrow> row \<Rightarrow> row" where
  "dict_updates kvs acc = fold (\<lambda>(k, v) m. AList.update k v m) kvs acc"

definition normalise_json_object :: "(string \<times> json) list \<Rightarrow> row" where
  "normalise_json_object kvs =
     (let top_dict = dict_updates (filter (\<lambda>(k, v). \<not> is_obj v) kvs) [];
          nested_dict = normalise_items [] (filter (\<lambda>(k, v). is_obj v) kvs) []
      in dict_updates nested_dict top_dict)"

text \<open>\<open>_simple_json_normalize\<close> on one element of the input list.\<close>

fun normalise_row :: "json \<Rightarrow> row res" where
  "normalise_row (JObj kvs) = Inr (normalise_json_object kvs)"
| "normalise_row (JArr _) = Inl Outside_Model"
| "normalise_row _ = Inr []"

definition frame_of_rows :: "row list \<Rightarrow> frame" where
  "frame_of_rows rs = \<lparr>df_columns = add_unique (concat (map (map fst) rs)) [], df_rows = rs\<rparr>"

definition json_normalize :: "json list option \<Rightarrow> frame res" where
  "json_normalize data =
     (case data of
        None \<Rightarrow> raise NotImplementedError
      | Some [] \<Rightarrow> Inr \<lparr>df_columns = [], df_rows = []\<rparr>
      | Some js \<Rightarrow> res_bind (mapM_res normalise_row js) (\<lambda>rs. Inr (frame_of_rows rs)))"

section \<open>DataFrame access\<close>

text \<open>\<open>df.empty\<close>: true when either axis has length 0.\<close>

definition df_empty :: "frame \<Rightarrow> bool" where
  "df_empty df \<longleftrightarrow> df_rows df = [] \<or> df_columns df = []"

text \<open>\<open>df[c]\<close>: the column's cells, \<open>None\<close> for NaN; \<open>KeyError\<close> for an absent column.\<close>

definition df_getitem :: "frame \<Rightarrow> string \<Rightarrow> json option list res" where
  "df_getitem df c =
     (if c \<in> set (df_columns df) then Inr (map (\<lambda>r. map_of r c) (df_rows df))
      else raise KeyError)"


declare json_normalize_def [pipeline_simps] normalise_json_object_def [pipeline_simps]
  dict_updates_def [pipeline_simps] nested_key_def [pipeline_simps] frame_of_rows_def [pipeline_simps]
  df_empty_def [pipeline_simps] df_getitem_def [pipeline_simps]

section \<open>The row invariant\<close>

text \<open>
  A flattened row has distinct keys and no dict value: every nested dict has been spread
  into dotted keys.
\<close>

definition flat_row :: "row \<Rightarrow> bool" where
  "flat_row r \<longleftrightarrow> distinct (map fst r) \<and> list_all (\<lambda>(k, v). \<not> is_obj v) r"

lemma set_update_subset: "set (AList.update k v m) \<subseteq> insert (k, v) (set m)"
  by (induction m) auto

lemma update_fresh: "k \<notin> set (map fst m) \<Longrightarrow> AList.update k v m = m @ [(k, v)]"
  by (induction m) auto

lemma flat_row_update: "flat_row m \<Longrightarrow> \<not> is_obj v \<Longrightarrow> flat_row (AList.update k v m)"
  using set_update_subset [of k v m]
  by (auto simp: flat_row_def list_all_iff distinct_update)

lemma flat_row_normalise:
  "flat_row acc \<Longrightarrow> flat_row (normalise_json key v acc)"
  "flat_row acc \<Longrightarrow> flat_row (normalise_items key kvs acc)"
  by (induction key v acc and key kvs acc rule: normalise_json_normalise_items.induct)
    (simp_all add: flat_row_update)

lemma flat_row_dict_updates:
  "flat_row acc \<Longrightarrow> list_all (\<lambda>(k, v). \<not> is_obj v) kvs \<Longrightarrow> flat_row (dict_updates kvs acc)"
  unfolding dict_updates_def
  by (induction kvs arbitrary: acc) (auto simp: flat_row_update)

lemma flat_row_Nil [simp]: "flat_row []"
  by (simp add: flat_row_def)

lemma dict_updates_fresh:
  "distinct (map fst kvs) \<Longrightarrow> set (map fst kvs) \<inter> set (map fst acc) = {} \<Longrightarrow>
   dict_updates kvs acc = acc @ kvs"
  unfolding dict_updates_def
  by (induction kvs arbitrary: acc) (auto simp: update_fresh)

lemma flat_row_values: "flat_row r \<Longrightarrow> list_all (\<lambda>(k, v). \<not> is_obj v) r"
  by (simp add: flat_row_def)


lemma filter_not_obj_flat: "list_all (\<lambda>(k, v). \<not> is_obj v) (filter (\<lambda>(k, v). \<not> is_obj v) kvs)"
  by (induction kvs) auto

lemma frame_columns_distinct: "distinct (df_columns (frame_of_rows rs))"
  by (simp add: frame_of_rows_def distinct_add_unique)

lemma frame_columns_set:
  "set (df_columns (frame_of_rows rs)) = (\<Union>r \<in> set rs. fst ` set r)"
  by (auto simp: frame_of_rows_def)

section \<open>Normalisation lemmas\<close>

lemma flat_row_normalise_object: "flat_row (normalise_json_object kvs)"
proof -
  let ?top = "dict_updates (filter (\<lambda>(k, v). \<not> is_obj v) kvs) []"
  let ?nested = "normalise_items [] (filter (\<lambda>(k, v). is_obj v) kvs) []"
  have top: "flat_row ?top"
    by (rule flat_row_dict_updates [OF flat_row_Nil filter_not_obj_flat])
  have "flat_row ?nested"
    by (rule flat_row_normalise(2) [OF flat_row_Nil])
  then have "list_all (\<lambda>(k, v). \<not> is_obj v) ?nested"
    by (rule flat_row_values)
  with top show ?thesis
    by (simp add: normalise_json_object_def flat_row_dict_updates)
qed

lemma normalise_flat_id:
  "flat_row kvs \<Longrightarrow> normalise_json_object kvs = kvs"
proof -
  assume flat: "flat_row kvs"
  then have nobj: "list_all (\<lambda>(k, v). \<not> is_obj v) kvs" by (rule flat_row_values)
  then have f1: "filter (\<lambda>(k, v). \<not> is_obj v) kvs = kvs"
    by (simp add: list_all_iff)
  from nobj have f2: "filter (\<lambda>(k, v). is_obj v) kvs = []"
    by (auto simp: list_all_iff filter_empty_conv)
  have "dict_updates kvs [] = kvs"
    using flat by (simp add: dict_updates_fresh flat_row_def)
  with f1 f2 show ?thesis
    by (simp add: normalise_json_object_def dict_updates_def)
qed

lemma normalise_row_flat: "normalise_row j = Inr r \<Longrightarrow> flat_row r"
  by (cases j) (auto simp: flat_row_normalise_object)

lemma json_normalize_Inr_rows:
  "json_normalize data = Inr df \<Longrightarrow>
     \<exists>js. data = Some js \<and> mapM_res normalise_row js = Inr (df_rows df)
       \<and> df_columns df = add_unique (concat (map (map fst) (df_rows df))) []"
  by (auto simp: json_normalize_def frame_of_rows_def res_bind_eq_Inr split: option.splits list.splits)

section \<open>Properties\<close>

text \<open>
  C33: every DataFrame that \<open>json_normalize\<close> returns has flat rows (distinct keys, no dict
  value, whatever the nesting of the input objects) and distinct columns, which are
  exactly the keys that occur in some row.
\<close>

theorem json_normalize_frame_inv:
  assumes "json_normalize data = Inr df"
  shows "list_all flat_row (df_rows df) \<and> distinct (df_columns df) \<and>
         set (df_columns df) = (\<Union>r \<in> set (df_rows df). fst ` set r)"
proof -
  obtain js where js: "mapM_res normalise_row js = Inr (df_rows df)"
    and cols: "df_columns df = add_unique (concat (map (map fst) (df_rows df))) []"
    using json_normalize_Inr_rows [OF assms] by blast
  have "list_all2 (\<lambda>j r. normalise_row j = Inr r) js (df_rows df)"
    using js by (simp add: mapM_res_Inr_iff)
  then have "list_all flat_row (df_rows df)"
    by (induction rule: list_all2_induct) (auto simp: normalise_row_flat)
  moreover have "distinct (df_columns df)" using cols by (simp add: distinct_add_unique)
  moreover have "set (df_columns df) = (\<Union>r \<in> set (df_rows df). fst ` set r)"
    using cols by auto
  ultimately show ?thesis by blast
qed

text \<open>
  flattening is idempotent: normalising the row that \<open>json_normalize\<close> made from a
  dict again gives the same row, items and order.
\<close>

theorem normalise_json_object_idem:
  "normalise_json_object (normalise_json_object kvs) = normalise_json_object kvs"
  by (rule normalise_flat_id [OF flat_row_normalise_object])

section \<open>Witnesses\<close>

theorem json_normalize_frame_inv_witness:
  "json_normalize (Some [JObj [(''city'', JObj [(''name'', JStr ''X'')]), (''age'', JInt 3)], JInt 1]) =
     Inr \<lparr>df_columns = [''age'', ''city.name''],
          df_rows = [[(''age'', JInt 3), (''city.name'', JStr ''X'')], []]\<rparr> \<and>
   list_all flat_row [[(''age'', JInt 3), (''city.name'', JStr ''X'')], []] \<and>
   distinct [''age'', ''city.name''] \<and>
   set [''age'', ''city.name''] =
     (\<Union>r \<in> set [[(''age'', JInt 3), (''city.name'', JStr ''X'')], []]. fst ` set (r :: row))"
proof -
  have n: "json_normalize (Some [JObj [(''city'', JObj [(''name'', JStr ''X'')]), (''age'', JInt 3)], JInt 1]) =
     Inr \<lparr>df_columns = [''age'', ''city.name''],
          df_rows = [[(''age'', JInt 3), (''city.name'', JStr ''X'')], []]\<rparr>"
    by (simp add: json_normalize_def normalise_json_object_def dict_updates_def nested_key_def
        frame_of_rows_def)
  from json_normalize_frame_inv [OF n] n show ?thesis by simp
qed

end
