(* ===== verification/Validator.thy ===== *)
theory Validator
  imports Json
begin

text \<open>
  \<open>check_dataframe\<close> (\<open>task.py\<close> lines 125-142), the gate \<open>process_json\<close> calls before any
  statistic (line 77): it fails on an empty DataFrame, then on the list of required
  columns the DataFrame lacks (in the order of \<open>required_columns\<close>), and otherwise
  accepts. What it prints is recorded by \<open>check_report\<close>; the returned bool is
  \<open>check_dataframe\<close>. The check is on the columns of the whole DataFrame: a column exists
  as soon as one row has the key.
\<close>

definition required_columns :: "string list" where
  "required_columns = [''id'', ''name'', ''city'', ''age'', ''friends'']"

datatype check_outcome = Empty_Frame | Missing_Columns "string list" | All_Present

definition missing_columns :: "frame \<Rightarrow> string list" where
  "missing_columns df = filter (\<lambda>col. col \<notin> set (df_columns df)) required_columns"

definition check_report :: "frame \<Rightarrow> check_outcome" where
  "check_report df =
     (if df_empty df then Empty_Frame
      else if missing_columns df \<noteq> [] then Missing_Columns (missing_columns df)
      else All_Present)"

definition check_dataframe :: "frame \<Rightarrow> bool" where
  "check_dataframe df = (check_report df = All_Present)"

declare check_dataframe_def [pipeline_simps] check_report_def [pipeline_simps]
  missing_columns_def [pipeline_simps] required_columns_def [pipeline_simps]

section \<open>Properties\<close>

lemma check_dataframe_rows: "check_dataframe df \<Longrightarrow> df_rows df \<noteq> []"
  by (simp add: check_dataframe_def check_report_def df_empty_def split: if_splits)

lemma missing_columns_Nil_iff:
  "missing_columns df = [] \<longleftrightarrow> set required_columns \<subseteq> set (df_columns df)"
  by (auto simp: missing_columns_def filter_empty_conv)

text \<open>
  C4: the check accepts exactly the DataFrames with at least one row, at least one column,
  and every required column among their columns.
\<close>

theorem check_dataframe_iff:
  "check_dataframe df \<longleftrightarrow>
     df_rows df \<noteq> [] \<and> df_columns df \<noteq> [] \<and> set required_columns \<subseteq> set (df_columns df)"
  by (auto simp: check_dataframe_def check_report_def df_empty_def missing_columns_Nil_iff)

text \<open>
  C30: on a non-empty DataFrame without a \<open>city\<close> column the check fails and the reported
  list of missing columns names \<open>city\<close>; the report lists exactly the required columns
  that are absent, in the order of \<open>required_columns\<close>.
\<close>

theorem check_report_names_missing:
  assumes "\<not> df_empty df" and "c \<in> set required_columns" and "c \<notin> set (df_columns df)"
  shows "check_report df = Missing_Columns (filter (\<lambda>col. col \<notin> set (df_columns df)) required_columns)
         \<and> c \<in> set (filter (\<lambda>col. col \<notin> set (df_columns df)) required_columns)
         \<and> \<not> check_dataframe df"
proof -
  have "c \<in> set (missing_columns df)" using assms(2,3) by (simp add: missing_columns_def)
  then have "missing_columns df \<noteq> []" by auto
  with assms show ?thesis
    by (simp add: check_report_def check_dataframe_def missing_columns_def)
qed

section \<open>Witnesses\<close>

theorem check_report_names_missing_witness:
  "\<not> df_empty \<lparr>df_columns = [''id'', ''name'', ''age''], df_rows = [[(''id'', JInt 1)]]\<rparr> \<and>
   check_report \<lparr>df_columns = [''id'', ''name'', ''age''], df_rows = [[(''id'', JInt 1)]]\<rparr> =
     Missing_Columns [''city'', ''friends'']"
proof -
  let ?df = "\<lparr>df_columns = [''id'', ''name'', ''age''], df_rows = [[(''id'', JInt 1)]]\<rparr>"
  have ne: "\<not> df_empty ?df" by (simp add: df_empty_def)
  have "''city'' \<in> set required_columns" by (simp add: required_columns_def)
  moreover have "''city'' \<notin> set (df_columns ?df)" by simp
  ultimately have "check_report ?df =
      Missing_Columns (filter (\<lambda>col. col \<notin> set (df_columns ?df)) required_columns)"
    using check_report_names_missing [OF ne] by blast
  with ne show ?thesis by (simp add: required_columns_def)
qed

end
