(* ===== verification/GroupBy.thy ===== *)
theory GroupBy
  imports Prelude
begin

text \<open>
  The pandas aggregation steps of \<open>process_json\<close> (\<open>task.py\<close> lines 83, 86, 89):
  \<open>df.groupby('city')[col].mean().round().astype(int)\<close> and \<open>df['num_friends'].idxmax()\<close>.
  A key column is a list of \<open>string option\<close> (\<open>None\<close> is NaN); \<open>groupby\<close> drops NaN keys
  (\<open>dropna=True\<close>) and sorts the keys (\<open>sort=True\<close>, Python's code-point order on
  strings, which is \<open>List_Lexorder\<close> on \<open>char list\<close>); \<open>mean\<close> skips NaN values and is
  NaN on a group with no value; \<open>round\<close> is numpy's round-half-to-even; \<open>astype(int)\<close>
  raises (\<open>IntCastingNaNError\<close>, a \<open>ValueError\<close>) on NaN. The mean is the exact rational
  mean: the float64 computation of pandas agrees with it while the sums stay below
  \<open>2^53\<close>. \<open>idxmax\<close> is numpy's \<open>argmax\<close>: the first position of the maximum, and
  \<open>ValueError\<close> on an empty column.
\<close>

section \<open>Mean and rounding\<close>

definition round_half_even :: "rat \<Rightarrow> int" where
  "round_half_even x =
     (let f = \<lfloor>x\<rfloor>; d = x - of_int f
      in if d < 1/2 then f else if 1/2 < d then f + 1 else if even f then f else f + 1)"

definition py_mean :: "int list \<Rightarrow> rat option" where
  "py_mean xs = (if xs = [] then None else Some (of_int (sum_list xs) / of_nat (length xs)))"

section \<open>Grouping\<close>

primrec present :: "'a option list \<Rightarrow> 'a list" where
  "present [] = []"
| "present (x # xs) = (case x of None \<Rightarrow> present xs | Some v \<Rightarrow> v # present xs)"

definition group_keys :: "string option list \<Rightarrow> string list" where
  "group_keys ks = sort (remdups (present ks))"

definition group_values :: "string \<Rightarrow> (string option \<times> 'v option) list \<Rightarrow> 'v list" where
  "group_values c kvs = present (map snd (filter (\<lambda>(k, v). k = Some c) kvs))"

definition groupby_mean :: "(string option \<times> int option) list \<Rightarrow> (string \<times> rat option) list" where
  "groupby_mean kvs = map (\<lambda>c. (c, py_mean (group_values c kvs))) (group_keys (map fst kvs))"

definition round_astype_int :: "(string \<times> rat option) list \<Rightarrow> (string \<times> int) list res" where
  "round_astype_int ms =
     mapM_res (\<lambda>(c, m). case m of None \<Rightarrow> raise ValueError | Some q \<Rightarrow> Inr (c, round_half_even q)) ms"

section \<open>The first maximum\<close>

definition idxmax :: "int list \<Rightarrow> nat res" where
  "idxmax xs = (case enumerate 0 xs of [] \<Rightarrow> raise ValueError | p # ps \<Rightarrow> Inr (fst (max_by snd p ps)))"


declare groupby_mean_def [pipeline_simps] group_keys_def [pipeline_simps]
  group_values_def [pipeline_simps] py_mean_def [pipeline_simps] round_astype_int_def [pipeline_simps]
  round_half_even_def [pipeline_simps] idxmax_def [pipeline_simps]

text \<open>Floors of rational literals, for evaluating the rounding on concrete means.\<close>

lemma floor_numeral_div [pipeline_simps]:
  "\<lfloor>(numeral a / numeral b :: rat)\<rfloor> = numeral a div numeral b"
  using floor_divide_of_int_eq [of "numeral a" "numeral b", where 'a = rat] by simp

lemma floor_one_div [pipeline_simps]: "\<lfloor>(1 / numeral b :: rat)\<rfloor> = 1 div numeral b"
  using floor_divide_of_int_eq [of 1 "numeral b", where 'a = rat] by simp

section \<open>Lemmas\<close>

lemma count_list_present: "count_list ks (Some c) = count_list (present ks) c"
  by (induction ks) (auto split: option.splits)

lemma length_present: "length (present ks) = length (filter (\<lambda>k. k \<noteq> None) ks)"
  by (induction ks) (auto split: option.splits)

lemma set_present: "set (present ks) = {c. Some c \<in> set ks}"
  by (induction ks) (auto split: option.splits)

lemma map_of_groupby_mean:
  "map_of (groupby_mean kvs) c =
     (if Some c \<in> set (map fst kvs) then Some (py_mean (group_values c kvs)) else None)"
proof -
  have "map_of (map (\<lambda>c. (c, g c)) xs) c = (if c \<in> set xs then Some (g c) else None)"
    for g :: "string \<Rightarrow> rat option" and xs
    by (induction xs) auto
  then show ?thesis
    by (simp add: groupby_mean_def group_keys_def set_present)
qed

lemma group_key_present_iff:
  "Some c \<in> fst ` set kvs \<longleftrightarrow> filter (\<lambda>(k, v). k = Some c) kvs \<noteq> []"
  by (force simp: filter_empty_conv)

lemma enumerate_prefix_index:
  assumes "enumerate 0 xs = pre @ r # post"
  shows "fst r = length pre" and "\<forall>j < length pre. (j, xs ! j) \<in> set pre"
proof -
  have len: "length pre < length xs"
    using arg_cong [OF assms, of length] by simp
  have "enumerate 0 xs ! length pre = r" using assms by simp
  then show "fst r = length pre" using len by (auto simp: nth_enumerate_eq)
  show "\<forall>j < length pre. (j, xs ! j) \<in> set pre"
  proof (intro allI impI)
    fix j assume j: "j < length pre"
    then have "enumerate 0 xs ! j = pre ! j" using assms by (simp add: nth_append)
    moreover have "enumerate 0 xs ! j = (j, xs ! j)" using j len by (simp add: nth_enumerate_eq)
    ultimately show "(j, xs ! j) \<in> set pre" using j by (metis nth_mem)
  qed
qed

lemma idxmax_sound:
  assumes "idxmax xs = Inr i"
  shows "i < length xs \<and> (\<forall>j < length xs. xs ! j \<le> xs ! i) \<and> (\<forall>j < i. xs ! j < xs ! i)"
proof -
  obtain p ps where e: "enumerate 0 xs = p # ps" and i: "i = fst (max_by snd p ps)"
    using assms by (auto simp: idxmax_def split: list.splits)
  define r where "r = max_by snd p ps"
  have spec: "r \<in> set (p # ps)" "\<forall>z \<in> set (p # ps). snd z \<le> snd r"
    "\<exists>pre post. p # ps = pre @ r # post \<and> (\<forall>z \<in> set pre. snd z < snd r)"
    using max_by_spec [of snd p ps, folded r_def] by blast+
  from spec(1) e have "r \<in> set (enumerate 0 xs)" by simp
  then have r: "fst r < length xs" "snd r = xs ! fst r"
    by (simp_all add: in_set_enumerate_eq)
  have ge: "\<forall>j < length xs. xs ! j \<le> xs ! i"
  proof (intro allI impI)
    fix j assume "j < length xs"
    then have "(j, xs ! j) \<in> set (p # ps)" by (simp flip: e add: in_set_enumerate_eq)
    with spec(2) r i r_def show "xs ! j \<le> xs ! i" by fastforce
  qed
  obtain pre post where dec: "enumerate 0 xs = pre @ r # post"
    and pre: "\<forall>z \<in> set pre. snd z < snd r"
    using spec(3) e by auto
  have "\<forall>j < i. xs ! j < xs ! i"
    using enumerate_prefix_index [OF dec] pre r i r_def by fastforce
  with ge r i r_def show ?thesis by simp
qed

lemma idxmax_Cons_Inr: "\<exists>i. idxmax (x # xs) = Inr i"
  by (simp add: idxmax_def)

lemma round_astype_int_Some:
  "round_astype_int (map (\<lambda>(c, q). (c, Some q)) cs) = Inr (map (\<lambda>(c, q). (c, round_half_even q)) cs)"
  by (induction cs) (auto simp: round_astype_int_def)

lemma idxmax_unique:
  fixes xs :: "int list"
  assumes "\<forall>j < length xs. xs ! j \<le> xs ! i" "\<forall>j < i. xs ! j < xs ! i"
    and "\<forall>j < length xs. xs ! j \<le> xs ! i'" "\<forall>j < i'. xs ! j < xs ! i'"
    and "i < length xs" "i' < length xs"
  shows "i = i'"
proof (rule ccontr)
  assume "i \<noteq> i'"
  then consider "i < i'" | "i' < i" by linarith
  then show False
  proof cases
    case 1
    with assms(4) have "xs ! i < xs ! i'" by blast
    moreover from assms(1,6) have "xs ! i' \<le> xs ! i" by blast
    ultimately show False by simp
  next
    case 2
    with assms(2) have "xs ! i' < xs ! i" by blast
    moreover from assms(3,5) have "xs ! i \<le> xs ! i'" by blast
    ultimately show False by simp
  qed
qed

section \<open>Properties\<close>

text \<open>
  C14: \<open>round\<close> of a mean gives an integer at distance at most 1/2 from it, and at
  distance exactly 1/2 (a tie) an even one: numpy's round-half-to-even.
\<close>

theorem round_half_even_nearest:
  "\<bar>of_int (round_half_even x) - x\<bar> \<le> 1/2 \<and>
   (\<bar>of_int (round_half_even x) - x\<bar> < 1/2 \<or> even (round_half_even x))"
proof -
  define f where "f = \<lfloor>x\<rfloor>"
  have lo: "of_int f \<le> x" and hi: "x < of_int f + 1"
    using floor_correct [of x] by (simp_all add: f_def)
  have r: "round_half_even x =
      (if x - of_int f < 1/2 then f else if 1/2 < x - of_int f then f + 1
       else if even f then f else f + 1)"
    by (simp add: round_half_even_def f_def Let_def)
  consider (lt) "x - of_int f < 1/2" | (gt) "1/2 < x - of_int f" | (eq) "x - of_int f = 1/2"
    by linarith
  then show ?thesis
  proof cases
    case lt
    with r lo show ?thesis by (simp add: abs_if)
  next
    case gt
    with r hi show ?thesis by (simp add: abs_if)
  next
    case eq
    then have "\<bar>of_int f - x\<bar> = 1/2" "\<bar>of_int (f + 1) - x\<bar> = (1/2 :: rat)" by simp_all
    with eq r show ?thesis by auto
  qed
qed

text \<open>
  the group sizes of \<open>groupby\<close> add up to the number of rows whose key is present:
  rows with a NaN key belong to no group.
\<close>

theorem groupby_group_sizes:
  "(\<Sum>c \<leftarrow> group_keys ks. count_list ks (Some c)) = length (filter (\<lambda>k. k \<noteq> None) ks)"
proof -
  have "(\<Sum>c \<leftarrow> group_keys ks. count_list ks (Some c)) =
      (\<Sum>c \<leftarrow> group_keys ks. count_list (present ks) c)"
    by (simp add: count_list_present)
  also have "\<dots> = sum (count_list (present ks)) (set (group_keys ks))"
    by (simp add: sum_list_distinct_conv_sum_set group_keys_def)
  also have "\<dots> = length (present ks)"
    by (simp add: group_keys_def sum_count_set)
  also have "\<dots> = length (filter (\<lambda>k. k \<noteq> None) ks)"
    by (rule length_present)
  finally show ?thesis .
qed

text \<open>
  C16: the per-key mean is the mean of the present values of exactly the rows with that
  key (NaN if none is present), and there is an entry exactly for the keys that occur.
\<close>

theorem groupby_mean_lookup:
  "map_of (groupby_mean kvs) c =
     (if filter (\<lambda>(k, v). k = Some c) kvs = [] then None
      else Some (py_mean (present (map snd (filter (\<lambda>(k, v). k = Some c) kvs)))))"
  by (simp add: map_of_groupby_mean group_key_present_iff group_values_def)

text \<open>
  grouping isolation: the entry of a key depends only on the rows with that key, so
  changing rows of other keys leaves it unchanged.
\<close>

theorem groupby_mean_isolation:
  assumes "filter (\<lambda>(k, v). k = Some c) kvs1 = filter (\<lambda>(k, v). k = Some c) kvs2"
  shows "map_of (groupby_mean kvs1) c = map_of (groupby_mean kvs2) c"
  using assms by (simp add: map_of_groupby_mean group_key_present_iff group_values_def)

text \<open>
  C32: the keys of the grouped result are sorted and distinct, and they are exactly the keys
  present in the column (not the order of first appearance).
\<close>

theorem groupby_mean_keys_sorted:
  "sorted (map fst (groupby_mean kvs)) \<and> distinct (map fst (groupby_mean kvs)) \<and>
   set (map fst (groupby_mean kvs)) = {c. Some c \<in> set (map fst kvs)}"
proof -
  have "map fst (groupby_mean kvs) = group_keys (map fst kvs)"
    by (simp add: groupby_mean_def comp_def)
  then show ?thesis by (simp add: group_keys_def set_present)
qed

text \<open>
  C15: \<open>idxmax\<close> returns \<open>i\<close> exactly when \<open>i\<close> is a position of the maximum and every
  earlier value is smaller: the first row attaining the maximum.
\<close>

theorem idxmax_first_max:
  "idxmax xs = Inr i \<longleftrightarrow>
     i < length xs \<and> (\<forall>j < length xs. xs ! j \<le> xs ! i) \<and> (\<forall>j < i. xs ! j < xs ! i)"
proof
  assume "idxmax xs = Inr i"
  then show "i < length xs \<and> (\<forall>j < length xs. xs ! j \<le> xs ! i) \<and> (\<forall>j < i. xs ! j < xs ! i)"
    by (rule idxmax_sound)
next
  assume i: "i < length xs \<and> (\<forall>j < length xs. xs ! j \<le> xs ! i) \<and> (\<forall>j < i. xs ! j < xs ! i)"
  then obtain y ys where "xs = y # ys" by (cases xs) auto
  then obtain i' where i': "idxmax xs = Inr i'" using idxmax_Cons_Inr by blast
  then have "i' < length xs \<and> (\<forall>j < length xs. xs ! j \<le> xs ! i') \<and> (\<forall>j < i'. xs ! j < xs ! i')"
    by (rule idxmax_sound)
  with i have "i = i'" using idxmax_unique [of xs i i'] by blast
  with i' show "idxmax xs = Inr i" by simp
qed

text \<open>
  C29: \<open>astype(int)\<close> on the rounded means raises \<open>ValueError\<close> as soon as one group's
  mean is NaN (a group whose values are all missing).
\<close>

theorem round_astype_int_nan:
  "(c, None) \<in> set ms \<Longrightarrow> round_astype_int ms = raise ValueError"
  unfolding round_astype_int_def
  by (rule mapM_res_raise) (auto split: option.splits)

section \<open>Witnesses\<close>

theorem groupby_mean_isolation_witness:
  "map_of (groupby_mean [(Some ''X'', Some 10), (Some ''Y'', Some 30)]) ''X'' =
   map_of (groupby_mean [(Some ''X'', Some 10), (Some ''Y'', Some 99), (None, Some 5)]) ''X''"
  by (rule groupby_mean_isolation) simp

theorem idxmax_first_max_witness: "idxmax [1, 3, 2, 3] = Inr 1"
proof -
  have "1 < length [1, 3, 2, 3 :: int] \<and> (\<forall>j < length [1, 3, 2, 3 :: int]. [1, 3, 2, 3 :: int] ! j \<le> [1, 3, 2, 3] ! 1)
        \<and> (\<forall>j < 1. [1, 3, 2, 3 :: int] ! j < [1, 3, 2, 3] ! 1)"
    by (auto simp: less_Suc_eq numeral_eq_Suc)
  then show ?thesis using idxmax_first_max [of "[1, 3, 2, 3]" 1] by blast
qed

theorem round_astype_int_nan_witness:
  "round_astype_int [(''X'', Some 15), (''Z'', None)] = raise ValueError"
  by (rule round_astype_int_nan [of "''Z''"]) simp

end
