(* ===== verification/Aggregator.thy ===== *)
theory Aggregator
  imports Frequency Validator GroupBy
begin

text \<open>
  \<open>process_json\<close> (\<open>task.py\<close> lines 70-122): normalise the decoded records into a
  DataFrame, stop with \<open>exit(-1)\<close> if \<open>check_dataframe\<close> rejects it, then compute, in the
  code's order, the rounded mean age per city (line 83), the friend counts
  \<open>df['friends'].apply(len)\<close> (line 85) and their rounded mean per city (line 86), the first
  row of maximal friend count (line 89), the most common name (lines 93-98), the hobbies
  of all friends flattened (lines 101-104) and the most common hobby (lines 106-108), and
  assemble the result row (lines 111-121). Every exception the code can meet is a branch.

  Each column is read cell by cell as Python would use the value:
  \<^item> \<open>city_key\<close>: a groupby key; NaN or \<open>null\<close> is dropped, a list is unhashable
    (\<open>TypeError\<close>);
  \<^item> \<open>age_value\<close>: an integer, or NaN, skipped by the mean;
  \<^item> \<open>py_len\<close>: Python's \<open>len\<close>, defined on lists, strings and dicts, \<open>TypeError\<close>
    on NaN, \<open>None\<close>, numbers and booleans;
  \<^item> \<open>name_value\<close> and \<open>hobby_key\<close>: a Counter key, a string (or NaN for a missing
    name), a list or dict is unhashable (\<open>TypeError\<close>);
  \<^item> \<open>iter_items\<close>: what a \<open>for\<close> loop or \<open>list.extend\<close> iterates: a list's elements,
    a string's characters, a dict's keys; \<open>TypeError\<close> on other values;
  \<^item> \<open>friend_hobbies\<close>: \<open>friend['hobbies']\<close>, \<open>KeyError\<close> on a dict without the key and
    \<open>TypeError\<close> on any value that is not a dict.
  Values whose Python semantics the model leaves out (numbers or booleans as cities, names
  or hobbies, non-integer ages) give \<open>Outside_Model\<close>.
\<close>

record result =
  average_age_per_city :: "(string \<times> int) list"
  average_friends_per_city :: "(string \<times> int) list"
  person_with_most_friends :: "string option"
  most_friends_count :: int
  most_common_name_count :: nat
  most_common_name_all_cities :: "string option"
  most_common_hobby :: string
  most_common_hobby_count :: nat

section \<open>Reading cells\<close>

fun city_key :: "json option \<Rightarrow> string option res" where
  "city_key None = Inr None"
| "city_key (Some JNull) = Inr None"
| "city_key (Some (JStr s)) = Inr (Some s)"
| "city_key (Some (JArr _)) = raise TypeError"
| "city_key (Some (JObj _)) = raise TypeError"
| "city_key (Some _) = Inl Outside_Model"

fun age_value :: "json option \<Rightarrow> int option res" where
  "age_value None = Inr None"
| "age_value (Some (JInt i)) = Inr (Some i)"
| "age_value (Some _) = Inl Outside_Model"

fun py_len :: "json option \<Rightarrow> int res" where
  "py_len (Some (JArr xs)) = Inr (int (length xs))"
| "py_len (Some (JStr s)) = Inr (int (length s))"
| "py_len (Some (JObj kvs)) = Inr (int (length kvs))"
| "py_len _ = raise TypeError"

fun name_value :: "json option \<Rightarrow> string option res" where
  "name_value None = Inr None"
| "name_value (Some (JStr s)) = Inr (Some s)"
| "name_value (Some (JArr _)) = raise TypeError"
| "name_value (Some (JObj _)) = raise TypeError"
| "name_value (Some _) = Inl Outside_Model"

fun hobby_key :: "json \<Rightarrow> string res" where
  "hobby_key (JStr s) = Inr s"
| "hobby_key (JArr _) = raise TypeError"
| "hobby_key (JObj _) = raise TypeError"
| "hobby_key _ = Inl Outside_Model"

fun iter_items :: "json \<Rightarrow> json list res" where
  "iter_items (JArr xs) = Inr xs"
| "iter_items (JStr s) = Inr (map (\<lambda>c. JStr [c]) s)"
| "iter_items (JObj kvs) = Inr (map (\<lambda>kv. JStr (fst kv)) kvs)"
| "iter_items _ = raise TypeError"

fun friend_hobbies :: "json \<Rightarrow> json res" where
  "friend_hobbies (JObj kvs) =
     (case map_of kvs ''hobbies'' of None \<Rightarrow> raise KeyError | Some v \<Rightarrow> Inr v)"
| "friend_hobbies _ = raise TypeError"

section \<open>The hobby loop (lines 101-104)\<close>

fun extend_hobbies :: "json list \<Rightarrow> json list res" where
  "extend_hobbies [] = Inr []"
| "extend_hobbies (friend # fs) =
     res_bind (friend_hobbies friend) (\<lambda>hs.
     res_bind (iter_items hs) (\<lambda>items.
     res_bind (extend_hobbies fs) (\<lambda>rest. Inr (items @ rest))))"

fun all_hobbies :: "json option list \<Rightarrow> json list res" where
  "all_hobbies [] = Inr []"
| "all_hobbies (cell # cells) =
     res_bind (case cell of None \<Rightarrow> raise TypeError | Some friends_list \<Rightarrow> iter_items friends_list)
       (\<lambda>friends.
     res_bind (extend_hobbies friends) (\<lambda>hs.
     res_bind (all_hobbies cells) (\<lambda>rest. Inr (hs @ rest))))"

section \<open>\<open>process_json\<close>\<close>

definition person_stats ::
  "frame \<Rightarrow> ((string \<times> int) list \<times> (string \<times> int) list \<times> int list \<times> nat) res" where
  "person_stats df =
     res_bind (df_getitem df ''city'') (\<lambda>city_cells.
     res_bind (mapM_res city_key city_cells) (\<lambda>cities.
     res_bind (df_getitem df ''age'') (\<lambda>age_cells.
     res_bind (mapM_res age_value age_cells) (\<lambda>ages.
     res_bind (round_astype_int (groupby_mean (zip cities ages))) (\<lambda>average_age.
     res_bind (df_getitem df ''friends'') (\<lambda>friend_cells.
     res_bind (mapM_res py_len friend_cells) (\<lambda>num_friends.
     res_bind (round_astype_int (groupby_mean (zip cities (map Some num_friends)))) (\<lambda>average_friends.
     res_bind (idxmax num_friends) (\<lambda>idx.
     Inr (average_age, average_friends, num_friends, idx))))))))))"

definition process_json :: "json list option \<Rightarrow> result res" where
  "process_json data =
     res_bind (json_normalize data) (\<lambda>df.
     if \<not> check_dataframe df then Inl CheckExit else
     res_bind (person_stats df) (\<lambda>(average_age, average_friends, num_friends, idx).
     res_bind (df_getitem df ''name'') (\<lambda>name_cells.
     res_bind (mapM_res name_value name_cells) (\<lambda>all_names.
     res_bind (py_index0 (most_common1 (Counter all_names))) (\<lambda>(common_name, common_name_count).
     res_bind (df_getitem df ''friends'') (\<lambda>friend_cells.
     res_bind (all_hobbies friend_cells) (\<lambda>hobbies.
     res_bind (mapM_res hobby_key hobbies) (\<lambda>hobby_keys.
     res_bind (py_index0 (most_common1 (Counter hobby_keys))) (\<lambda>(common_hobby, common_hobby_count).
     Inr \<lparr>average_age_per_city = average_age,
          average_friends_per_city = average_friends,
          person_with_most_friends = all_names ! idx,
          most_friends_count = num_friends ! idx,
          most_common_name_count = common_name_count,
          most_common_name_all_cities = common_name,
          most_common_hobby = common_hobby,
          most_common_hobby_count = common_hobby_count\<rparr>)))))))))"

section \<open>Inputs of the spec's scenario\<close>

definition spec_friend :: "string list \<Rightarrow> json" where
  "spec_friend hs = JObj [(''hobbies'', JArr (map JStr hs))]"

text \<open>The three persons of the spec's concrete scenario, as the spec writes them.\<close>

definition spec_scenario :: "json list" where
  "spec_scenario =
    [JObj [(''city'', JStr ''X''), (''age'', JInt 10), (''friends'', JArr [spec_friend [''chess'']])],
     JObj [(''city'', JStr ''X''), (''age'', JInt 20), (''friends'', JArr [])],
     JObj [(''city'', JStr ''Y''), (''age'', JInt 30),
           (''friends'', JArr [spec_friend [''chess'', ''golf'']])]]"

text \<open>The same persons with the \<open>id\<close> and \<open>name\<close> fields the code requires.\<close>

definition spec_scenario_named :: "json list" where
  "spec_scenario_named =
    [JObj [(''id'', JInt 1), (''name'', JStr ''A''), (''city'', JStr ''X''), (''age'', JInt 10),
           (''friends'', JArr [spec_friend [''chess'']])],
     JObj [(''id'', JInt 2), (''name'', JStr ''B''), (''city'', JStr ''X''), (''age'', JInt 20),
           (''friends'', JArr [])],
     JObj [(''id'', JInt 3), (''name'', JStr ''C''), (''city'', JStr ''Y''), (''age'', JInt 30),
           (''friends'', JArr [spec_friend [''chess'', ''golf'']])]]"

text \<open>One person whose only friend has no hobby.\<close>

definition no_hobby_input :: "json list" where
  "no_hobby_input =
    [JObj [(''id'', JInt 1), (''name'', JStr ''A''), (''city'', JStr ''X''), (''age'', JInt 10),
           (''friends'', JArr [spec_friend []])]]"

declare process_json_def [pipeline_simps] person_stats_def [pipeline_simps]

section \<open>Properties\<close>

text \<open>
  C5: \<open>check_dataframe\<close> is a hard gate: when it rejects the DataFrame built from the
  input, \<open>process_json\<close> ends with \<open>exit(-1)\<close> and computes no statistic.
\<close>

theorem process_json_check_gate:
  assumes "json_normalize data = Inr df" and "\<not> check_dataframe df"
  shows "process_json data = Inl CheckExit"
  using assms by (simp add: process_json_def)

text \<open>
  when every row passes the statistics on persons and names but no friend has a hobby,
  \<open>most_common(1)[0]\<close> on the empty hobby counter raises \<open>IndexError\<close>: the code has no
  explicit "no hobbies" outcome.
\<close>

theorem process_json_no_hobbies:
  assumes "json_normalize data = Inr df" and "check_dataframe df"
    and "person_stats df = Inr st"
    and "df_getitem df ''name'' = Inr name_cells" and "mapM_res name_value name_cells = Inr names"
    and "df_getitem df ''friends'' = Inr friend_cells" and "all_hobbies friend_cells = Inr []"
  shows "process_json data = raise IndexError"
proof -
  have "df_rows df \<noteq> []" using assms(2) by (rule check_dataframe_rows)
  then have "name_cells \<noteq> []" using assms(4) by (auto simp: df_getitem_def split: if_splits)
  then have "names \<noteq> []" using mapM_res_length [OF assms(5)] by auto
  then obtain n c where "most_common1 (Counter names) = (n, c) # []"
    using most_common1_Counter_ref [of names] most_common_ref_Nil_iff [of names]
    by (cases "most_common1 (Counter names)") (auto simp: most_common1_def split: list.splits)
  with assms show ?thesis
    by (cases st) (simp add: process_json_def Counter_def most_common1_def)
qed

text \<open>
  Example: the spec's concrete scenario, with the required \<open>id\<close> and \<open>name\<close> fields added:
  mean ages X 15 and Y 30; mean friend counts X 0 (the mean 1/2 rounds half to even) and
  Y 1; the first person with the most friends is A, with one friend; the most common hobby
  is chess, twice.
\<close>

theorem process_json_spec_scenario:
  "process_json (Some spec_scenario_named) =
     Inr \<lparr>average_age_per_city = [(''X'', 15), (''Y'', 30)],
          average_friends_per_city = [(''X'', 0), (''Y'', 1)],
          person_with_most_friends = Some ''A'', most_friends_count = 1,
          most_common_name_count = 1, most_common_name_all_cities = Some ''A'',
          most_common_hobby = ''chess'', most_common_hobby_count = 2\<rparr>"
  by (simp add: pipeline_simps spec_scenario_named_def spec_friend_def)

text \<open>
  Example: the spec's concrete scenario as the spec writes it (no \<open>id\<close>, no \<open>name\<close>) is
  rejected by the check, which reports the columns \<open>id\<close> and \<open>name\<close> missing, and the run
  ends with \<open>exit(-1)\<close>.
\<close>

theorem process_json_spec_example_rejected:
  "(\<exists>df. json_normalize (Some spec_scenario) = Inr df \<and>
         check_report df = Missing_Columns [''id'', ''name'']) \<and>
   process_json (Some spec_scenario) = Inl CheckExit"
  by (simp add: pipeline_simps spec_scenario_def spec_friend_def)

section \<open>Witnesses\<close>

theorem process_json_check_gate_witness: "process_json (Some spec_scenario) = Inl CheckExit"
proof -
  let ?df = "\<lparr>df_columns = [''city'', ''age'', ''friends''],
     df_rows = [[(''city'', JStr ''X''), (''age'', JInt 10), (''friends'', JArr [spec_friend [''chess'']])],
                [(''city'', JStr ''X''), (''age'', JInt 20), (''friends'', JArr [])],
                [(''city'', JStr ''Y''), (''age'', JInt 30),
                 (''friends'', JArr [spec_friend [''chess'', ''golf'']])]]\<rparr>"
  have n: "json_normalize (Some spec_scenario) = Inr ?df"
    by (simp add: pipeline_simps spec_scenario_def spec_friend_def)
  have c: "\<not> check_dataframe ?df" by (simp add: pipeline_simps)
  show ?thesis by (rule process_json_check_gate [OF n c])
qed

theorem process_json_no_hobbies_witness: "process_json (Some no_hobby_input) = raise IndexError"
proof -
  let ?row = "[(''id'', JInt 1), (''name'', JStr ''A''), (''city'', JStr ''X''), (''age'', JInt 10),
               (''friends'', JArr [spec_friend []])]"
  let ?df = "\<lparr>df_columns = [''id'', ''name'', ''city'', ''age'', ''friends''], df_rows = [?row]\<rparr>"
  have n: "json_normalize (Some no_hobby_input) = Inr ?df"
    by (simp add: pipeline_simps no_hobby_input_def spec_friend_def)
  have c: "check_dataframe ?df" by (simp add: pipeline_simps)
  have p: "person_stats ?df = Inr ([(''X'', 10)], [(''X'', 1)], [1], 0)"
    by (simp add: pipeline_simps spec_friend_def)
  have g: "df_getitem ?df ''name'' = Inr [Some (JStr ''A'')]" by (simp add: pipeline_simps)
  have m: "mapM_res name_value [Some (JStr ''A'')] = Inr [Some ''A'']" by simp
  have f: "df_getitem ?df ''friends'' = Inr [Some (JArr [spec_friend []])]"
    by (simp add: pipeline_simps)
  have h: "all_hobbies [Some (JArr [spec_friend []])] = Inr []" by (simp add: spec_friend_def)
  show ?thesis by (rule process_json_no_hobbies [OF n c p g m f h])
qed

end
