(* ===== verification/Statistics.thy ===== *)
theory Statistics
  imports Aggregator
begin

text \<open>
  The abstract contract of \<open>process_json\<close> (\<open>task.py\<close> lines 70-122) on well-formed input,
  stated over the data model of the feed rather than over pandas: a \<open>person\<close> has an id,
  a name, a city, an age and a list of friends, each \<open>friend\<close> a list of hobbies. A
  person arrives as the JSON object \<open>person_json\<close>. \<open>statistics\<close> is the result the
  program promises: for each city, in sorted order, the half-to-even rounded mean age and
  mean friend count of exactly the persons of that city; the first person, in input order,
  with the most friends; the most common name and hobby with the tie-break of
  \<open>most_common_ref\<close> (earliest first occurrence); \<open>exit(-1)\<close> on an empty feed and
  \<open>IndexError\<close> when no friend has a hobby. The refinement theorem says that the
  detailed model of the code computes exactly this.
\<close>

record friend =
  hobbies :: "string list"

record person =
  person_id :: int
  person_name :: string
  person_city :: string
  person_age :: int
  person_friends :: "friend list"

section \<open>Encoding persons as feed records\<close>

definition friend_json :: "friend \<Rightarrow> json" where
  "friend_json f = JObj [(''hobbies'', JArr (map JStr (hobbies f)))]"

definition person_row :: "person \<Rightarrow> row" where
  "person_row p =
     [(''id'', JInt (person_id p)), (''name'', JStr (person_name p)),
      (''city'', JStr (person_city p)), (''age'', JInt (person_age p)),
      (''friends'', JArr (map friend_json (person_friends p)))]"

definition person_json :: "person \<Rightarrow> json" where
  "person_json p = JObj (person_row p)"

section \<open>The abstract statistics\<close>

definition num_friends :: "person \<Rightarrow> int" where
  "num_friends p = int (length (person_friends p))"

definition mean :: "int list \<Rightarrow> rat" where
  "mean xs = of_int (sum_list xs) / of_nat (length xs)"

definition per_city :: "(person \<Rightarrow> int) \<Rightarrow> person list \<Rightarrow> (string \<times> int) list" where
  "per_city f ps =
     map (\<lambda>c. (c, round_half_even (mean (map f (filter (\<lambda>p. person_city p = c) ps)))))
       (sort (remdups (map person_city ps)))"

definition all_hobbies_of :: "person list \<Rightarrow> string list" where
  "all_hobbies_of ps = concat (map (\<lambda>p. concat (map hobbies (person_friends p))) ps)"

definition most_friends :: "person list \<Rightarrow> int" where
  "most_friends ps = Max (set (map num_friends ps))"

text \<open>
  The \<open>None\<close> and \<open>[]\<close> branches below the emptiness test cannot be reached: a non-empty
  list has a person of maximal friend count and a most common name.
\<close>

definition statistics :: "person list \<Rightarrow> result res" where
  "statistics ps =
     (if ps = [] then Inl CheckExit else
      case List.find (\<lambda>p. num_friends p = most_friends ps) ps of
        None \<Rightarrow> Inl CheckExit
      | Some leader \<Rightarrow>
          (case most_common_ref (map (\<lambda>p. Some (person_name p)) ps) of
             [] \<Rightarrow> Inl CheckExit
           | (common_name, common_name_count) # _ \<Rightarrow>
               (case most_common_ref (all_hobbies_of ps) of
                  [] \<Rightarrow> raise IndexError
                | (common_hobby, common_hobby_count) # _ \<Rightarrow>
                    Inr \<lparr>average_age_per_city = per_city person_age ps,
                         average_friends_per_city = per_city num_friends ps,
                         person_with_most_friends = Some (person_name leader),
                         most_friends_count = num_friends leader,
                         most_common_name_count = common_name_count,
                         most_common_name_all_cities = common_name,
                         most_common_hobby = common_hobby,
                         most_common_hobby_count = common_hobby_count\<rparr>)))"

text \<open>
  Two persons of the same city with one friend each, a tie on the friend count: the
  mean age 15.5 rounds half to even to 16, and the first person leads.
\<close>

definition tie_persons :: "person list" where
  "tie_persons =
     [\<lparr>person_id = 1, person_name = ''A'', person_city = ''X'', person_age = 10,
       person_friends = [\<lparr>hobbies = [''chess'']\<rparr>]\<rparr>,
      \<lparr>person_id = 2, person_name = ''B'', person_city = ''X'', person_age = 21,
       person_friends = [\<lparr>hobbies = [''chess'', ''golf'']\<rparr>]\<rparr>]"

section \<open>The code on encoded persons\<close>

abbreviation person_keys :: "string list" where
  "person_keys \<equiv> [''id'', ''name'', ''city'', ''age'', ''friends'']"

lemma flat_person_row: "flat_row (person_row p)"
  by (simp add: flat_row_def person_row_def)

lemma normalise_person: "normalise_row (person_json p) = Inr (person_row p)"
  by (simp add: person_json_def normalise_flat_id [OF flat_person_row])

lemma json_normalize_persons:
  "ps \<noteq> [] \<Longrightarrow> json_normalize (Some (map person_json ps)) = Inr (frame_of_rows (map person_row ps))"
proof -
  assume "ps \<noteq> []"
  then obtain q qs where ps: "ps = q # qs" by (cases ps) auto
  have "mapM_res normalise_row (map person_json ps) = Inr (map person_row ps)"
    by (induction ps) (simp_all add: normalise_person)
  then show ?thesis by (simp add: json_normalize_def ps)
qed

lemma add_unique_covered: "set xs \<subseteq> set acc \<Longrightarrow> add_unique xs acc = acc"
  by (induction xs) auto

lemma person_columns:
  "ps \<noteq> [] \<Longrightarrow> df_columns (frame_of_rows (map person_row ps)) = person_keys"
proof -
  assume "ps \<noteq> []"
  then obtain q qs where ps: "ps = q # qs" by (cases ps) auto
  have keys: "map fst (person_row p) = person_keys" for p by (simp add: person_row_def)
  have "concat (map (map fst) (map person_row ps)) = person_keys @ concat (map (\<lambda>p. person_keys) qs)"
    by (simp add: ps keys comp_def)
  moreover have "add_unique person_keys [] = person_keys" by simp
  moreover have "add_unique (concat (map (\<lambda>p. person_keys) qs)) person_keys = person_keys"
    by (rule add_unique_covered) auto
  ultimately show ?thesis
    by (simp only: frame_of_rows_def frame.select_convs add_unique_append)
qed

lemma check_persons:
  "ps \<noteq> [] \<Longrightarrow> check_dataframe (frame_of_rows (map person_row ps))"
  by (simp add: check_dataframe_def check_report_def df_empty_def missing_columns_def
      required_columns_def person_columns) (simp add: frame_of_rows_def)

lemma getitem_persons:
  assumes "ps \<noteq> []" and "c \<in> set person_keys"
  shows "df_getitem (frame_of_rows (map person_row ps)) c = Inr (map (\<lambda>p. map_of (person_row p) c) ps)"
  using assms by (simp add: df_getitem_def person_columns) (simp add: frame_of_rows_def)


lemma zip_map_same: "zip (map f xs) (map g xs) = map (\<lambda>x. (f x, g x)) xs"
  by (induction xs) auto

lemma present_map_Some: "present (map (\<lambda>x. Some (f x)) xs) = map f xs"
  by (induction xs) auto

lemma group_values_present:
  "group_values c (map (\<lambda>x. (Some (k x), Some (v x))) xs) = map v (filter (\<lambda>x. k x = c) xs)"
proof -
  have "filter (\<lambda>(k', w). k' = Some c) (map (\<lambda>x. (Some (k x), Some (v x))) xs) =
      map (\<lambda>x. (Some (k x), Some (v x))) (filter (\<lambda>x. k x = c) xs)"
    by (induction xs) auto
  then show ?thesis by (simp add: group_values_def comp_def present_map_Some)
qed

lemma groupby_mean_present:
  "groupby_mean (map (\<lambda>x. (Some (k x), Some (v x))) xs) =
     map (\<lambda>c. (c, Some (mean (map v (filter (\<lambda>x. k x = c) xs))))) (sort (remdups (map k xs)))"
proof -
  have "groupby_mean (map (\<lambda>x. (Some (k x), Some (v x))) xs) =
      map (\<lambda>c. (c, py_mean (map v (filter (\<lambda>x. k x = c) xs)))) (sort (remdups (map k xs)))"
    by (simp add: groupby_mean_def group_keys_def group_values_present comp_def present_map_Some)
  also have "\<dots> = map (\<lambda>c. (c, Some (mean (map v (filter (\<lambda>x. k x = c) xs))))) (sort (remdups (map k xs)))"
  proof (rule map_cong)
    fix c assume "c \<in> set (sort (remdups (map k xs)))"
    then have "filter (\<lambda>x. k x = c) xs \<noteq> []" by (auto simp: filter_empty_conv)
    then show "(c, py_mean (map v (filter (\<lambda>x. k x = c) xs))) =
        (c, Some (mean (map v (filter (\<lambda>x. k x = c) xs))))"
      by (simp add: py_mean_def mean_def)
  qed simp
  finally show ?thesis .
qed

lemma round_astype_int_all:
  "round_astype_int (map (\<lambda>c. (c, Some (q c))) cs) = Inr (map (\<lambda>c. (c, round_half_even (q c))) cs)"
  by (induction cs) (simp_all add: round_astype_int_def)

lemma per_city_code:
  "round_astype_int (groupby_mean (map (\<lambda>p. (Some (person_city p), Some (f p))) ps)) =
     Inr (per_city f ps)"
  by (simp add: groupby_mean_present round_astype_int_all per_city_def comp_def)

lemma person_cells:
  "map (\<lambda>p. map_of (person_row p) ''city'') ps = map (\<lambda>p. Some (JStr (person_city p))) ps"
  "map (\<lambda>p. map_of (person_row p) ''age'') ps = map (\<lambda>p. Some (JInt (person_age p))) ps"
  "map (\<lambda>p. map_of (person_row p) ''name'') ps = map (\<lambda>p. Some (JStr (person_name p))) ps"
  "map (\<lambda>p. map_of (person_row p) ''friends'') ps =
     map (\<lambda>p. Some (JArr (map friend_json (person_friends p)))) ps"
  by (simp_all add: person_row_def)

lemma person_stats_persons:
  assumes "ps \<noteq> []" and "idxmax (map num_friends ps) = Inr i"
  shows "person_stats (frame_of_rows (map person_row ps)) =
           Inr (per_city person_age ps, per_city num_friends ps, map num_friends ps, i)"
proof -
  let ?df = "frame_of_rows (map person_row ps)"
  have cities: "mapM_res city_key (map (\<lambda>p. Some (JStr (person_city p))) ps) =
      Inr (map (\<lambda>p. Some (person_city p)) ps)"
    by (rule mapM_res_map_map) simp
  have ages: "mapM_res age_value (map (\<lambda>p. Some (JInt (person_age p))) ps) =
      Inr (map (\<lambda>p. Some (person_age p)) ps)"
    by (rule mapM_res_map_map) simp
  have lens: "mapM_res py_len (map (\<lambda>p. Some (JArr (map friend_json (person_friends p)))) ps) =
      Inr (map num_friends ps)"
    by (rule mapM_res_map_map) (simp add: num_friends_def)
  have avg_age: "round_astype_int (groupby_mean (zip (map (\<lambda>p. Some (person_city p)) ps)
      (map (\<lambda>p. Some (person_age p)) ps))) = Inr (per_city person_age ps)"
    by (simp add: zip_map_same per_city_code)
  have avg_friends: "round_astype_int (groupby_mean (zip (map (\<lambda>p. Some (person_city p)) ps)
      (map (Some \<circ> num_friends) ps))) = Inr (per_city num_friends ps)"
    by (simp add: zip_map_same per_city_code comp_def)
  show ?thesis
    using assms(2)
    by (simp add: person_stats_def getitem_persons [OF assms(1)] person_cells cities ages lens
        avg_age avg_friends)
qed


lemma leader_idxmax:
  assumes "idxmax (map num_friends ps) = Inr i"
  shows "i < length ps \<and> List.find (\<lambda>p. num_friends p = most_friends ps) ps = Some (ps ! i)"
proof -
  have s: "i < length (map num_friends ps) \<and>
      (\<forall>j < length (map num_friends ps). map num_friends ps ! j \<le> map num_friends ps ! i) \<and>
      (\<forall>j < i. map num_friends ps ! j < map num_friends ps ! i)"
    by (rule idxmax_sound [OF assms])
  then have i: "i < length ps" by simp
  with s have ge: "\<forall>j < length ps. num_friends (ps ! j) \<le> num_friends (ps ! i)"
    and lt: "\<forall>j < i. num_friends (ps ! j) < num_friends (ps ! i)"
    by auto
  have "most_friends ps = num_friends (ps ! i)"
    unfolding most_friends_def
  proof (rule Max_eqI)
    show "finite (set (map num_friends ps))" by simp
    show "num_friends (ps ! i) \<in> set (map num_friends ps)" using i by simp
    fix y assume "y \<in> set (map num_friends ps)"
    then obtain j where "j < length ps" "y = num_friends (ps ! j)"
      by (auto simp: in_set_conv_nth)
    with ge show "y \<le> num_friends (ps ! i)" by simp
  qed
  with i lt have "List.find (\<lambda>p. num_friends p = most_friends ps) ps = Some (ps ! i)"
    by (auto simp: find_Some_iff intro!: exI [of _ i])
  with i show ?thesis by simp
qed

lemma names_persons:
  "mapM_res name_value (map (\<lambda>p. Some (JStr (person_name p))) ps) =
     Inr (map (\<lambda>p. Some (person_name p)) ps)"
  by (rule mapM_res_map_map) simp

lemma extend_hobbies_friends:
  "extend_hobbies (map friend_json fs) = Inr (map JStr (concat (map hobbies fs)))"
  by (induction fs) (simp_all add: friend_json_def comp_def)

lemma all_hobbies_persons:
  "all_hobbies (map (\<lambda>p. Some (JArr (map friend_json (person_friends p)))) ps) =
     Inr (map JStr (all_hobbies_of ps))"
  by (induction ps) (simp_all add: extend_hobbies_friends all_hobbies_of_def)

lemma hobby_keys_persons: "mapM_res hobby_key (map JStr hs) = Inr hs"
  by (induction hs) simp_all

lemma process_json_no_persons: "process_json (Some []) = Inl CheckExit"
  by (simp add: process_json_def json_normalize_def check_dataframe_def check_report_def
      df_empty_def)

section \<open>Refinement\<close>

lemma persons_setup:
  assumes "ps \<noteq> []"
  obtains i n nc where "i < length ps"
    "List.find (\<lambda>p. num_friends p = most_friends ps) ps = Some (ps ! i)"
    "most_common_ref (map (\<lambda>p. Some (person_name p)) ps) = [(n, nc)]"
    "json_normalize (Some (map person_json ps)) = Inr (frame_of_rows (map person_row ps))"
    "check_dataframe (frame_of_rows (map person_row ps))"
    "person_stats (frame_of_rows (map person_row ps)) =
       Inr (per_city person_age ps, per_city num_friends ps, map num_friends ps, i)"
proof -
  obtain q qs where ps: "ps = q # qs" using assms by (cases ps) auto
  obtain i where i: "idxmax (map num_friends ps) = Inr i"
    using idxmax_Cons_Inr [of "num_friends q" "map num_friends qs"] ps by auto
  obtain n nc where "most_common_ref (map (\<lambda>p. Some (person_name p)) ps) = [(n, nc)]"
    using most_common_ref_Nil_iff [of "map (\<lambda>p. Some (person_name p)) ps"] assms
    by (auto simp: most_common_ref_def split: option.splits)
  with leader_idxmax [OF i] json_normalize_persons [OF assms] check_persons [OF assms]
    person_stats_persons [OF assms i] that show ?thesis by auto
qed

lemmas process_json_persons_simps = process_json_def statistics_def getitem_persons person_cells
  names_persons most_common1_Counter_ref all_hobbies_persons hobby_keys_persons

lemma process_json_statistics: "process_json (Some (map person_json ps)) = statistics ps"
proof (cases "ps = []")
  case True
  then show ?thesis by (simp add: process_json_no_persons statistics_def)
next
  case False
  then obtain i n nc where s: "i < length ps"
    "List.find (\<lambda>p. num_friends p = most_friends ps) ps = Some (ps ! i)"
    "most_common_ref (map (\<lambda>p. Some (person_name p)) ps) = [(n, nc)]"
    "json_normalize (Some (map person_json ps)) = Inr (frame_of_rows (map person_row ps))"
    "check_dataframe (frame_of_rows (map person_row ps))"
    "person_stats (frame_of_rows (map person_row ps)) =
       Inr (per_city person_age ps, per_city num_friends ps, map num_friends ps, i)"
    by (rule persons_setup)
  show ?thesis
    using False s by (cases "most_common_ref (all_hobbies_of ps)")
      (auto simp: process_json_persons_simps)
qed

lemma statistics_Inr:
  assumes "statistics ps = Inr r"
  shows "ps \<noteq> [] \<and> average_age_per_city r = per_city person_age ps \<and>
    average_friends_per_city r = per_city num_friends ps \<and>
    (\<exists>leader. List.find (\<lambda>p. num_friends p = most_friends ps) ps = Some leader \<and>
       person_with_most_friends r = Some (person_name leader) \<and>
       most_friends_count r = num_friends leader) \<and>
    most_common_ref (map (\<lambda>p. Some (person_name p)) ps) =
      [(most_common_name_all_cities r, most_common_name_count r)] \<and>
    most_common_ref (all_hobbies_of ps) = [(most_common_hobby r, most_common_hobby_count r)]"
proof -
  have ne: "ps \<noteq> []" using assms by (auto simp: statistics_def)
  obtain leader where l: "List.find (\<lambda>p. num_friends p = most_friends ps) ps = Some leader"
    using assms ne by (auto simp: statistics_def split: option.splits)
  obtain n nc where n: "most_common_ref (map (\<lambda>p. Some (person_name p)) ps) = [(n, nc)]"
    using most_common_ref_cases [of "map (\<lambda>p. Some (person_name p)) ps"] assms ne l
    by (auto simp: statistics_def)
  obtain h hc where h: "most_common_ref (all_hobbies_of ps) = [(h, hc)]"
    using most_common_ref_cases [of "all_hobbies_of ps"] assms ne l n
    by (auto simp: statistics_def)
  from assms ne l n h show ?thesis by (auto simp: statistics_def)
qed

lemma map_fst_per_city: "map fst (per_city f ps) = sort (remdups (map person_city ps))"
  by (simp add: per_city_def comp_def)

lemma map_of_per_city:
  "map_of (per_city f ps) c =
     (if c \<in> person_city ` set ps
      then Some (round_half_even (mean (map f (filter (\<lambda>p. person_city p = c) ps)))) else None)"
  by (simp add: per_city_def map_of_pairs)

lemma count_list_map_filter: "count_list (map f xs) y = length (filter (\<lambda>x. f x = y) xs)"
  by (induction xs) auto

lemma leader_first_max:
  assumes "List.find (\<lambda>p. num_friends p = most_friends ps) ps = Some leader"
  shows "\<exists>k < length ps. leader = ps ! k \<and> (\<forall>j < length ps. num_friends (ps ! j) \<le> num_friends (ps ! k))
           \<and> (\<forall>j < k. num_friends (ps ! j) < num_friends (ps ! k))"
proof -
  from assms obtain k where k: "k < length ps" "num_friends (ps ! k) = most_friends ps"
    "leader = ps ! k" "\<forall>j < k. num_friends (ps ! j) \<noteq> most_friends ps"
    by (auto simp: find_Some_iff)
  have le: "num_friends (ps ! j) \<le> most_friends ps" if "j < length ps" for j
    unfolding most_friends_def using that by (intro Max_ge) auto
  with k show ?thesis
    by (intro exI [of _ k]) (auto simp: order_less_le)
qed

section \<open>Properties\<close>

text \<open>
  C1: on a feed of well-formed persons, \<open>process_json\<close> computes exactly the abstract
  statistics: per-city half-to-even rounded means of age and friend count over the persons
  of each city (cities sorted), the first person in input order with the most friends,
  the most common name and hobby by earliest first occurrence among the most frequent,
  \<open>exit(-1)\<close> on an empty feed and \<open>IndexError\<close> when no friend has a hobby.
\<close>

theorem process_json_refines: "process_json (Some (map person_json ps)) = statistics ps"
proof (cases "ps = []")
  case True
  then show ?thesis by (simp add: process_json_no_persons statistics_def)
next
  case False
  then obtain i n nc where s: "i < length ps"
    "List.find (\<lambda>p. num_friends p = most_friends ps) ps = Some (ps ! i)"
    "most_common_ref (map (\<lambda>p. Some (person_name p)) ps) = [(n, nc)]"
    "json_normalize (Some (map person_json ps)) = Inr (frame_of_rows (map person_row ps))"
    "check_dataframe (frame_of_rows (map person_row ps))"
    "person_stats (frame_of_rows (map person_row ps)) =
       Inr (per_city person_age ps, per_city num_friends ps, map num_friends ps, i)"
    by (rule persons_setup)
  show ?thesis
    using False s by (cases "most_common_ref (all_hobbies_of ps)")
      (auto simp: process_json_persons_simps)
qed

text \<open>
  C13: for well-formed persons, the mean age reported for a city is the rounded mean age of
  exactly the persons of that city, and a city is reported exactly when some person lives
  there.
\<close>

theorem persons_city_mean_age:
  assumes "process_json (Some (map person_json ps)) = Inr r"
  shows "map_of (average_age_per_city r) c =
     (if c \<in> person_city ` set ps
      then Some (round_half_even (mean (map person_age (filter (\<lambda>p. person_city p = c) ps))))
      else None)"
proof -
  from assms have "statistics ps = Inr r" by (simp add: process_json_statistics)
  then have "average_age_per_city r = per_city person_age ps" by (simp add: statistics_Inr)
  then show ?thesis by (simp add: map_of_per_city)
qed

text \<open>
  C17: for well-formed persons (every record has a city), the sizes of the per-city groups
  add up to the number of records.
\<close>

theorem persons_group_sizes:
  assumes "process_json (Some (map person_json ps)) = Inr r"
  shows "(\<Sum>c \<leftarrow> map fst (average_age_per_city r). length (filter (\<lambda>p. person_city p = c) ps)) =
         length ps"
proof -
  from assms have "statistics ps = Inr r" by (simp add: process_json_statistics)
  then have a: "map fst (average_age_per_city r) = sort (remdups (map person_city ps))"
    by (simp add: statistics_Inr map_fst_per_city)
  have "(\<Sum>c \<leftarrow> sort (remdups (map person_city ps)). length (filter (\<lambda>p. person_city p = c) ps)) =
      sum (count_list (map person_city ps)) (set (map person_city ps))"
    by (simp add: sum_list_distinct_conv_sum_set count_list_map_filter)
  also have "\<dots> = length ps" by (simp add: sum_count_set)
  finally show ?thesis by (simp add: a)
qed

text \<open>
  C12: the person reported with the most friends is the first person, in input order, whose
  friend count is maximal, and the reported count is that maximum.
\<close>

theorem persons_first_max_friends:
  assumes "process_json (Some (map person_json ps)) = Inr r"
  shows "\<exists>k < length ps. person_with_most_friends r = Some (person_name (ps ! k)) \<and>
           most_friends_count r = num_friends (ps ! k) \<and>
           (\<forall>j < length ps. num_friends (ps ! j) \<le> num_friends (ps ! k)) \<and>
           (\<forall>j < k. num_friends (ps ! j) < num_friends (ps ! k))"
proof -
  from assms have "statistics ps = Inr r" by (simp add: process_json_statistics)
  then obtain leader where l: "List.find (\<lambda>p. num_friends p = most_friends ps) ps = Some leader"
    and r: "person_with_most_friends r = Some (person_name leader)"
      "most_friends_count r = num_friends leader"
    using statistics_Inr by blast
  from leader_first_max [OF l] r show ?thesis by blast
qed

text \<open>
  C18: for well-formed persons, the reported hobby count is the number of occurrences of the
  reported hobby among all friends' hobbies, and no hobby occurs more often.
\<close>

theorem persons_hobby_count:
  assumes "process_json (Some (map person_json ps)) = Inr r"
  shows "most_common_hobby_count r = count_list (all_hobbies_of ps) (most_common_hobby r) \<and>
         (\<forall>h. count_list (all_hobbies_of ps) h \<le> most_common_hobby_count r)"
proof -
  from assms have "statistics ps = Inr r" by (simp add: process_json_statistics)
  then have "most_common_ref (all_hobbies_of ps) = [(most_common_hobby r, most_common_hobby_count r)]"
    by (simp add: statistics_Inr)
  from most_common_ref_props [OF this] show ?thesis by blast
qed

text \<open>
  C19: for well-formed persons, the run raises \<open>IndexError\<close> exactly when the feed is not
  empty and no friend of any person has a hobby.
\<close>

theorem persons_no_hobbies_iff:
  "process_json (Some (map person_json ps)) = raise IndexError \<longleftrightarrow>
     ps \<noteq> [] \<and> all_hobbies_of ps = []"
proof -
  have "statistics ps = raise IndexError \<longleftrightarrow> ps \<noteq> [] \<and> all_hobbies_of ps = []"
  proof (cases "ps = []")
    case True
    then show ?thesis by (simp add: statistics_def raise_def)
  next
    case False
    then obtain leader where l: "List.find (\<lambda>p. num_friends p = most_friends ps) ps = Some leader"
      using leader_idxmax idxmax_Cons_Inr by (metis list.exhaust list.simps(9))
    obtain n nc where n: "most_common_ref (map (\<lambda>p. Some (person_name p)) ps) = [(n, nc)]"
      using most_common_ref_cases [of "map (\<lambda>p. Some (person_name p)) ps"]
        most_common_ref_Nil_iff [of "map (\<lambda>p. Some (person_name p)) ps"] False by auto
    show ?thesis
      using most_common_ref_cases [of "all_hobbies_of ps"] most_common_ref_Nil_iff [of "all_hobbies_of ps"]
        False l n by (auto simp: statistics_def raise_def)
  qed
  then show ?thesis by (simp add: process_json_statistics)
qed

section \<open>Witnesses\<close>

lemma tie_persons_run:
  "process_json (Some (map person_json tie_persons)) =
     Inr \<lparr>average_age_per_city = [(''X'', 16)], average_friends_per_city = [(''X'', 1)],
          person_with_most_friends = Some ''A'', most_friends_count = 1,
          most_common_name_count = 1, most_common_name_all_cities = Some ''A'',
          most_common_hobby = ''chess'', most_common_hobby_count = 2\<rparr>"
  by (simp add: pipeline_simps tie_persons_def person_json_def person_row_def friend_json_def)

theorem persons_city_mean_age_witness:
  "map_of [(''X'', 16 :: int)] ''X'' =
     Some (round_half_even (mean (map person_age (filter (\<lambda>p. person_city p = ''X'') tie_persons))))"
  using persons_city_mean_age [OF tie_persons_run, of "''X''"] by (simp add: tie_persons_def)

theorem persons_group_sizes_witness:
  "(\<Sum>c \<leftarrow> [''X'']. length (filter (\<lambda>p. person_city p = c) tie_persons)) = 2"
  using persons_group_sizes [OF tie_persons_run] by (simp add: tie_persons_def)

theorem persons_first_max_friends_witness:
  "\<exists>k < 2. Some ''A'' = Some (person_name (tie_persons ! k)) \<and> 1 = num_friends (tie_persons ! k)"
proof -
  obtain k where "k < length tie_persons" "Some ''A'' = Some (person_name (tie_persons ! k))"
    "1 = num_friends (tie_persons ! k)"
    using persons_first_max_friends [OF tie_persons_run] by auto
  then show ?thesis by (intro exI [of _ k]) (simp add: tie_persons_def)
qed

theorem persons_hobby_count_witness:
  "count_list (all_hobbies_of tie_persons) ''chess'' = 2 \<and> count_list (all_hobbies_of tie_persons) ''golf'' \<le> 2"
  using persons_hobby_count [OF tie_persons_run] by simp

end
