(* ===== verification/JsonText.thy ===== *)
theory JsonText
  imports Json
begin

text \<open>
  JSON as text: Python's \<open>json\<close> module as \<open>task.py\<close> uses it through \<open>json.dump\<close>
  (\<open>save_json\<close>, lines 50-56), \<open>json.load\<close> (\<open>load_json\<close>, lines 59-66) and, with the
  separators of pandas' writer, \<open>DataFrame.to_json\<close> (\<open>save_dataframe_to_json\<close>, lines
  166-171). The encoder follows \<open>json/encoder.py\<close> (\<open>_make_iterencode\<close>, the encoder that
  \<open>json.dump\<close> runs when \<open>indent\<close> is set) chunk by chunk, because \<open>json.dump\<close> writes each
  chunk to the file as it is produced: an exception in the middle leaves the chunks before
  it in the file. The decoder follows the scanner of \<open>json/decoder.py\<close> and
  \<open>json/scanner.py\<close> (\<open>scan_once\<close>, \<open>JSONArray\<close>, \<open>JSONObject\<close>, \<open>scanstring\<close>, the
  number pattern). A malformed document raises \<open>JSONDecodeError\<close>, a subclass of
  \<open>ValueError\<close> that \<open>get_data\<close> catches; the digit limit of \<open>int()\<close> raises a plain
  \<open>ValueError\<close>, which it does not. Python 3.11 refuses to convert
  an integer of more than 4300 decimal digits to or from a string (\<open>ValueError\<close>), in
  both directions. A \<open>char\<close> holds a code point below 256: a \<open>\u\<close> escape above
  \<open>U+00FF\<close> and every float literal (whose value is a binary double) are outside the
  model. The recursive scanner is given fuel; running out is \<open>Fuel_Exhausted\<close>, which the
  lemmas show never happens with the fuel \<open>json_loads\<close> gives. CPython's
  \<open>RecursionError\<close>, which the C scanner and the encoder raise on a document nested
  about a thousand levels deep, is not modelled: here such a document decodes and
  encodes like any other.
\<close>

section \<open>Characters\<close>

abbreviation dquote :: char where "dquote \<equiv> CHR 0x22"
abbreviation bslash :: char where "bslash \<equiv> CHR 0x5C"

definition ws_chars :: "char list" where
  "ws_chars = [CHR 0x20, CHR 0x09, CHR 0x0A, CHR 0x0D]"

text \<open>\<open>WHITESPACE = re.compile(r'[ \t\n\r]*')\<close> matched at a position.\<close>

definition skip_ws :: "string \<Rightarrow> string" where
  "skip_ws s = dropWhile (\<lambda>c. c \<in> set ws_chars) s"

definition is_digit :: "char \<Rightarrow> bool" where
  "is_digit c \<longleftrightarrow> CHR ''0'' \<le> c \<and> c \<le> CHR ''9''"

definition digit_char :: "nat \<Rightarrow> char" where
  "digit_char d = ''0123456789'' ! d"

definition digit_val :: "char \<Rightarrow> nat" where
  "digit_val c = of_char c - 48"

text \<open>Lower-case hexadecimal, as \<open>'\\u{0:04x}'.format(n)\<close> writes it.\<close>

definition hex_char :: "nat \<Rightarrow> char" where
  "hex_char d = ''0123456789abcdef'' ! d"

definition hex_val :: "char \<Rightarrow> nat option" where
  "hex_val c =
     (if is_digit c then Some (digit_val c)
      else if CHR ''a'' \<le> c \<and> c \<le> CHR ''f'' then Some (of_char c - 87)
      else if CHR ''A'' \<le> c \<and> c \<le> CHR ''F'' then Some (of_char c - 55)
      else None)"

section \<open>Integers and their decimal text\<close>

function digits_of_nat :: "nat \<Rightarrow> string" where
  "digits_of_nat n =
     (if n < 10 then [digit_char n] else digits_of_nat (n div 10) @ [digit_char (n mod 10)])"
  by auto
termination by (relation "measure id") auto

declare digits_of_nat.simps [simp del]

text \<open>\<open>int.__repr__\<close>: an optional minus sign and the digits.\<close>

definition str_int :: "int \<Rightarrow> string" where
  "str_int i = (if i < 0 then CHR ''-'' # digits_of_nat (nat (- i)) else digits_of_nat (nat i))"

text \<open>\<open>sys.get_int_max_str_digits()\<close>, the default limit of Python 3.11.\<close>

definition int_max_str_digits :: nat where
  "int_max_str_digits = 4300"

text \<open>
  The conversion \<open>int.__repr__\<close> refuses a value of more than \<open>int_max_str_digits\<close>
  digits, that is one whose absolute value is at least \<open>10 ^ 4300\<close>.
\<close>

definition py_int_repr_ok :: "int \<Rightarrow> bool" where
  "py_int_repr_ok i \<longleftrightarrow> \<bar>i\<bar> < 10 ^ int_max_str_digits"

definition nat_of_digits :: "string \<Rightarrow> nat" where
  "nat_of_digits ds = foldl (\<lambda>acc c. 10 * acc + digit_val c) 0 ds"

section \<open>Strings\<close>

text \<open>
  \<open>py_encode_basestring_ascii\<close>: \<open>ESCAPE_DCT\<close> for the quote, the backslash and the
  five named control characters, \<open>\u00XX\<close> for every other character outside the
  printable ASCII range \<open>' '..'~'\<close> (so also for \<open>DEL\<close>). pandas' writer additionally
  escapes the forward slash as \<open>\/\<close>.
\<close>

definition u_escape :: "nat \<Rightarrow> string" where
  "u_escape n = [bslash, CHR ''u'', hex_char (n div 4096 mod 16), hex_char (n div 256 mod 16),
                 hex_char (n div 16 mod 16), hex_char (n mod 16)]"

definition escape_char :: "bool \<Rightarrow> char \<Rightarrow> string" where
  "escape_char esc_slash c =
     (if c = bslash then [bslash, bslash]
      else if c = dquote then [bslash, dquote]
      else if c = CHR 0x08 then [bslash, CHR ''b'']
      else if c = CHR 0x0C then [bslash, CHR ''f'']
      else if c = CHR 0x0A then [bslash, CHR ''n'']
      else if c = CHR 0x0D then [bslash, CHR ''r'']
      else if c = CHR 0x09 then [bslash, CHR ''t'']
      else if c = CHR ''/'' \<and> esc_slash then [bslash, CHR ''/'']
      else if CHR '' '' \<le> c \<and> c \<le> CHR ''~'' then [c]
      else u_escape (of_char c))"

definition encode_str :: "bool \<Rightarrow> string \<Rightarrow> string" where
  "encode_str esc_slash s = dquote # concat (map (escape_char esc_slash) s) @ [dquote]"

section \<open>The encoder\<close>

text \<open>
  The configuration of an encoder: the key separator (\<open>': '\<close> for \<open>json.dump\<close> with an
  \<open>indent\<close>, \<open>':'\<close> for pandas' writer), whether \<open>/\<close> is escaped, which integers it can
  write and the exception it raises on the others.
\<close>

record enc_cfg =
  key_sep :: string
  esc_slash :: bool
  int_ok :: "int \<Rightarrow> bool"
  int_exc :: py_exc

text \<open>\<open>json.dump(json_data, file, indent=4)\<close>.\<close>

definition py_dump_cfg :: enc_cfg where
  "py_dump_cfg = \<lparr>key_sep = '': '', esc_slash = False, int_ok = py_int_repr_ok,
                  int_exc = ValueError\<rparr>"

text \<open>
  What the encoder has produced: the text of the chunks yielded so far and the exception
  that stopped it, if any. \<open>out_seq\<close> runs the second part only when the first finished.
\<close>

type_synonym out = "string \<times> py_exc option"

definition emit :: "string \<Rightarrow> out" where
  "emit s = (s, None)"

definition out_seq :: "out \<Rightarrow> out \<Rightarrow> out" where
  "out_seq a b = (case snd a of None \<Rightarrow> (fst a @ fst b, snd b) | Some e \<Rightarrow> a)"

definition newline_indent :: "nat \<Rightarrow> string" where
  "newline_indent l = CHR 0x0A # replicate (4 * l) (CHR '' '')"

fun is_container :: "json \<Rightarrow> bool" where
  "is_container (JArr _) = True"
| "is_container (JObj _) = True"
| "is_container _ = False"

text \<open>
  The text of a value that is not a container; \<open>None\<close> when \<open>_intstr\<close> raises. A
  \<open>JFloat\<close> holds the text \<open>float.__repr__\<close> gives.
\<close>

fun scalar_text :: "enc_cfg \<Rightarrow> json \<Rightarrow> string option" where
  "scalar_text c JNull = Some ''null''"
| "scalar_text c (JBool b) = Some (if b then ''true'' else ''false'')"
| "scalar_text c (JInt i) = (if int_ok c i then Some (str_int i) else None)"
| "scalar_text c (JFloat s) = Some s"
| "scalar_text c (JStr s) = Some (encode_str (esc_slash c) s)"
| "scalar_text c (JArr _) = None"
| "scalar_text c (JObj _) = None"

text \<open>One chunk \<open>buf + text\<close>: nothing of it is written when the text raises.\<close>

definition chunk :: "enc_cfg \<Rightarrow> string \<Rightarrow> json \<Rightarrow> out" where
  "chunk c buf v = (case scalar_text c v of Some t \<Rightarrow> emit (buf @ t) | None \<Rightarrow> ([], Some (int_exc c)))"

text \<open>
  \<open>_iterencode\<close>, \<open>_iterencode_list\<close> and \<open>_iterencode_dict\<close>. In a list, a scalar is
  yielded together with the separator before it (\<open>yield buf + _intstr(value)\<close>); in a
  dict, the separator, the key and the key separator are yielded before the value.
\<close>

fun iterencode :: "enc_cfg \<Rightarrow> nat \<Rightarrow> json \<Rightarrow> out"
and iterencode_list :: "enc_cfg \<Rightarrow> nat \<Rightarrow> string \<Rightarrow> json list \<Rightarrow> out"
and iterencode_dict :: "enc_cfg \<Rightarrow> nat \<Rightarrow> bool \<Rightarrow> (string \<times> json) list \<Rightarrow> out" where
  "iterencode c l (JArr []) = emit ''[]''"
| "iterencode c l (JArr (v # vs)) =
     out_seq (iterencode_list c (Suc l) (CHR ''['' # newline_indent (Suc l)) (v # vs))
       (out_seq (emit (newline_indent l)) (emit '']''))"
| "iterencode c l (JObj []) = emit ''{}''"
| "iterencode c l (JObj (kv # kvs)) =
     out_seq (emit ''{'') (out_seq (emit (newline_indent (Suc l)))
       (out_seq (iterencode_dict c (Suc l) True (kv # kvs))
         (out_seq (emit (newline_indent l)) (emit ''}''))))"
| "iterencode c l JNull = chunk c [] JNull"
| "iterencode c l (JBool b) = chunk c [] (JBool b)"
| "iterencode c l (JInt i) = chunk c [] (JInt i)"
| "iterencode c l (JFloat s) = chunk c [] (JFloat s)"
| "iterencode c l (JStr s) = chunk c [] (JStr s)"
| "iterencode_list c l buf [] = emit []"
| "iterencode_list c l buf (v # vs) =
     out_seq (if is_container v then out_seq (emit buf) (iterencode c l v) else chunk c buf v)
       (iterencode_list c l (CHR '','' # newline_indent l) vs)"
| "iterencode_dict c l first [] = emit []"
| "iterencode_dict c l first ((k, v) # kvs) =
     out_seq (emit (if first then [] else CHR '','' # newline_indent l))
       (out_seq (emit (encode_str (esc_slash c) k)) (out_seq (emit (key_sep c))
         (out_seq (if is_container v then iterencode c l v else chunk c [] v)
           (iterencode_dict c l False kvs))))"

text \<open>\<open>json.dumps(obj, indent=4)\<close>: the chunks joined; an exception leaves no text.\<close>

definition json_dumps :: "json \<Rightarrow> string res" where
  "json_dumps v = (case iterencode py_dump_cfg 0 v of (t, None) \<Rightarrow> Inr t | (_, Some e) \<Rightarrow> raise e)"

section \<open>The decoder\<close>

text \<open>
  \<open>scanstring\<close> (the C version \<open>json.loads\<close> runs): the characters up to the closing
  quote with their escapes resolved; a raw control character, an unknown escape, a
  \<open>\u\<close> escape without four hexadecimal digits and a missing closing quote raise.
\<close>

definition simple_escape :: "char \<Rightarrow> char option" where
  "simple_escape e =
     map_of [(dquote, dquote), (bslash, bslash), (CHR ''/'', CHR ''/''), (CHR ''b'', CHR 0x08),
             (CHR ''f'', CHR 0x0C), (CHR ''n'', CHR 0x0A), (CHR ''r'', CHR 0x0D),
             (CHR ''t'', CHR 0x09)] e"

definition decode_u4 :: "string \<Rightarrow> nat option" where
  "decode_u4 s =
     (if length s < 4 then None
      else map_option (foldl (\<lambda>acc d. 16 * acc + d) 0) (those (map hex_val (take 4 s))))"

function scanstring :: "string \<Rightarrow> string \<Rightarrow> (string \<times> string) res" where
  "scanstring acc [] = raise JSONDecodeError"
| "scanstring acc (c # s) =
     (if c = dquote then Inr (acc, s)
      else if c = bslash then
        (case s of
           [] \<Rightarrow> raise JSONDecodeError
         | e # s' \<Rightarrow>
             if e = CHR ''u'' then
               (case decode_u4 s' of
                  None \<Rightarrow> raise JSONDecodeError
                | Some n \<Rightarrow> if n < 256 then scanstring (acc @ [char_of n]) (drop 4 s')
                            else Inl Outside_Model)
             else (case simple_escape e of
                     None \<Rightarrow> raise JSONDecodeError
                   | Some ch \<Rightarrow> scanstring (acc @ [ch]) s'))
      else if of_char c < (32::nat) then raise JSONDecodeError
      else scanstring (acc @ [c]) s)"
  by pat_completeness auto
termination by (relation "measure (\<lambda>(acc, s). length s)") auto

text \<open>
  \<open>NUMBER_RE = (-?(?:0|[1-9]\d*))(\.\d+)?([eE][-+]?\d+)?\<close> matched at the start: the
  integer part (with its sign), whether a fraction or an exponent follows (then the
  value is a float), and the rest of the input.
\<close>

definition match_int_part :: "string \<Rightarrow> (string \<times> string) option" where
  "match_int_part s =
     (case s of
        c # r \<Rightarrow> if c = CHR ''0'' then Some (''0'', r)
                 else if is_digit c then Some (c # takeWhile is_digit r, dropWhile is_digit r)
                 else None
      | [] \<Rightarrow> None)"

definition has_frac :: "string \<Rightarrow> bool" where
  "has_frac r \<longleftrightarrow> (case r of c # d # _ \<Rightarrow> c = CHR ''.'' \<and> is_digit d | _ \<Rightarrow> False)"

definition has_exp :: "string \<Rightarrow> bool" where
  "has_exp r \<longleftrightarrow>
     (case r of
        e # r' \<Rightarrow> (e = CHR ''e'' \<or> e = CHR ''E'') \<and>
          (case r' of
             d # r'' \<Rightarrow> is_digit d \<or> ((d = CHR ''+'' \<or> d = CHR ''-'') \<and> r'' \<noteq> [] \<and> is_digit (hd r''))
           | [] \<Rightarrow> False)
      | [] \<Rightarrow> False)"

text \<open>
  A number at the start of the input: an integer with at most 4300 digits becomes
  \<open>JInt\<close> (\<open>int(integer)\<close>, which raises above the limit); a float, and the constants
  \<open>NaN\<close>, \<open>Infinity\<close>, \<open>-Infinity\<close> that \<open>parse_constant\<close> turns into floats, are
  outside the model; anything else is "Expecting value".
\<close>

definition scan_sign :: "string \<Rightarrow> bool \<times> string" where
  "scan_sign s = (case s of c # r \<Rightarrow> if c = CHR ''-'' then (True, r) else (False, s) | [] \<Rightarrow> (False, s))"

definition scan_number :: "string \<Rightarrow> (json \<times> string) res" where
  "scan_number s =
     (case match_int_part (snd (scan_sign s)) of
        Some (ds, r) \<Rightarrow>
          if has_frac r \<or> has_exp (if has_frac r then dropWhile is_digit (tl r) else r)
          then Inl Outside_Model
          else if int_max_str_digits < length ds then raise ValueError
          else Inr (JInt ((if fst (scan_sign s) then - 1 else 1) * int (nat_of_digits ds)), r)
      | None \<Rightarrow>
          if take 3 s = ''NaN'' \<or> take 8 s = ''Infinity'' \<or> take 9 s = ''-Infinity''
          then Inl Outside_Model else raise JSONDecodeError)"

text \<open>
  \<open>scan_once\<close> and the two container parsers of the decoder, with fuel. Whitespace is
  skipped where \<open>JSONArray\<close> and \<open>JSONObject\<close> skip it; \<open>dict(pairs)\<close> keeps the first
  position and the last value of a repeated key (\<open>dict_updates\<close>).
\<close>

fun scan_once :: "nat \<Rightarrow> string \<Rightarrow> (json \<times> string) res"
and parse_array :: "nat \<Rightarrow> json list \<Rightarrow> string \<Rightarrow> (json \<times> string) res"
and parse_object :: "nat \<Rightarrow> (string \<times> json) list \<Rightarrow> string \<Rightarrow> (json \<times> string) res" where
  "scan_once 0 s = Inl Fuel_Exhausted"
| "scan_once (Suc n) [] = raise JSONDecodeError"
| "scan_once (Suc n) (c # s) =
     (if c = dquote then res_bind (scanstring [] s) (\<lambda>(str, r). Inr (JStr str, r))
      else if c = CHR ''{'' then
        (case skip_ws s of
           d # r \<Rightarrow> if d = CHR ''}'' then Inr (JObj [], r)
                    else if d = dquote then parse_object n [] r
                    else raise JSONDecodeError
         | [] \<Rightarrow> raise JSONDecodeError)
      else if c = CHR ''['' then
        (case skip_ws s of
           d # r \<Rightarrow> if d = CHR '']'' then Inr (JArr [], r) else parse_array n [] (d # r)
         | [] \<Rightarrow> raise JSONDecodeError)
      else if take 4 (c # s) = ''null'' then Inr (JNull, drop 3 s)
      else if take 4 (c # s) = ''true'' then Inr (JBool True, drop 3 s)
      else if take 5 (c # s) = ''false'' then Inr (JBool False, drop 4 s)
      else scan_number (c # s))"
| "parse_array 0 acc s = Inl Fuel_Exhausted"
| "parse_array (Suc n) acc s =
     res_bind (scan_once n s) (\<lambda>(v, r).
       case skip_ws r of
         d # r' \<Rightarrow> if d = CHR '']'' then Inr (JArr (acc @ [v]), r')
                   else if d = CHR '','' then parse_array n (acc @ [v]) (skip_ws r')
                   else raise JSONDecodeError
       | [] \<Rightarrow> raise JSONDecodeError)"
| "parse_object 0 acc s = Inl Fuel_Exhausted"
| "parse_object (Suc n) acc s =
     res_bind (scanstring [] s) (\<lambda>(k, r).
       case skip_ws r of
         d # r1 \<Rightarrow>
           if d = CHR '':'' then
             res_bind (scan_once n (skip_ws r1)) (\<lambda>(v, r2).
               case skip_ws r2 of
                 e # r3 \<Rightarrow>
                   if e = CHR ''}'' then Inr (JObj (dict_updates (acc @ [(k, v)]) []), r3)
                   else if e = CHR '','' then
                     (case skip_ws r3 of
                        q # r4 \<Rightarrow> if q = dquote then parse_object n (acc @ [(k, v)]) r4
                                 else raise JSONDecodeError
                      | [] \<Rightarrow> raise JSONDecodeError)
                   else raise JSONDecodeError
               | [] \<Rightarrow> raise JSONDecodeError)
           else raise JSONDecodeError
       | [] \<Rightarrow> raise JSONDecodeError)"

text \<open>
  \<open>json.loads(s)\<close> (\<open>JSONDecoder.decode\<close>): skip whitespace, scan one value, skip
  whitespace, and raise "Extra data" unless the input is used up. The fuel
  \<open>2 * length s + 1\<close> is enough (lemma \<open>scan_once_fuel\<close>): every call consumes input,
  and a container spends two units per element.
\<close>

definition json_loads :: "string \<Rightarrow> json res" where
  "json_loads s =
     res_bind (scan_once (2 * length s + 1) (skip_ws s))
       (\<lambda>(v, r). if skip_ws r = [] then Inr v else raise JSONDecodeError)"

section \<open>What the round trip needs\<close>

text \<open>
  A well-formed value for the round trip: no float (its text is not read back as the same
  value), no integer of more than 4300 digits (\<open>int()\<close> refuses to read it back), and no
  repeated key in an object (\<open>dict\<close> would merge it).
\<close>

fun wf_json :: "json \<Rightarrow> bool"
and wf_json_list :: "json list \<Rightarrow> bool"
and wf_json_items :: "(string \<times> json) list \<Rightarrow> bool" where
  "wf_json (JFloat _) = False"
| "wf_json (JInt i) = py_int_repr_ok i"
| "wf_json (JArr vs) = wf_json_list vs"
| "wf_json (JObj kvs) = (distinct (map fst kvs) \<and> wf_json_items kvs)"
| "wf_json _ = True"
| "wf_json_list [] = True"
| "wf_json_list (v # vs) = (wf_json v \<and> wf_json_list vs)"
| "wf_json_items [] = True"
| "wf_json_items ((k, v) # kvs) = (wf_json v \<and> wf_json_items kvs)"

text \<open>An encoder whose key separator is a colon followed by whitespace.\<close>

definition valid_cfg :: "enc_cfg \<Rightarrow> bool" where
  "valid_cfg c \<longleftrightarrow>
     (case key_sep c of d # w \<Rightarrow> d = CHR '':'' \<and> list_all (\<lambda>x. x \<in> set ws_chars) w | [] \<Rightarrow> False)"

text \<open>What may follow a value in the encoder's text: the end, whitespace, or punctuation.\<close>

definition value_end :: "string \<Rightarrow> bool" where
  "value_end r \<longleftrightarrow>
     (case r of [] \<Rightarrow> True
      | c # _ \<Rightarrow> c \<in> set ws_chars \<or> c = CHR '','' \<or> c = CHR '']'' \<or> c = CHR ''}'')"

text \<open>The first character of an encoded value: never whitespace nor a closing or separating mark.\<close>

definition value_start :: "char \<Rightarrow> bool" where
  "value_start d \<longleftrightarrow> d \<notin> set ws_chars \<and> d \<noteq> CHR '']'' \<and> d \<noteq> CHR ''}'' \<and> d \<noteq> CHR '',''"

text \<open>The integers a value holds, the ones the encoder has to write.\<close>

fun json_ints :: "json \<Rightarrow> int list"
and json_ints_list :: "json list \<Rightarrow> int list"
and json_ints_items :: "(string \<times> json) list \<Rightarrow> int list" where
  "json_ints (JInt i) = [i]"
| "json_ints (JArr vs) = json_ints_list vs"
| "json_ints (JObj kvs) = json_ints_items kvs"
| "json_ints _ = []"
| "json_ints_list [] = []"
| "json_ints_list (v # vs) = json_ints v @ json_ints_list vs"
| "json_ints_items [] = []"
| "json_ints_items ((k, v) # kvs) = json_ints v @ json_ints_items kvs"

text \<open>The facts that evaluate \<open>json_loads\<close> on a concrete text by simplification.\<close>

lemmas json_text_simps = json_loads_def skip_ws_def ws_chars_def scan_number_def match_int_part_def
  scan_sign_def has_frac_def has_exp_def is_digit_def nat_of_digits_def digit_val_def
  int_max_str_digits_def dict_updates_def simple_escape_def numeral_eq_Suc

section \<open>Lemmas on the encoder and the decoder\<close>

lemma emit_simps [simp]: "fst (emit s) = s" "snd (emit s) = None"
  by (simp_all add: emit_def)

lemma out_seq_None_iff:
  "out_seq a b = (t, None) \<longleftrightarrow> (\<exists>t1 t2. a = (t1, None) \<and> b = (t2, None) \<and> t = t1 @ t2)"
  by (cases a; cases b) (auto simp: out_seq_def split: option.splits)

lemma out_seq_emit_None_iff [simp]:
  "out_seq (emit s) b = (t, None) \<longleftrightarrow> (\<exists>t2. b = (t2, None) \<and> t = s @ t2)"
  by (auto simp: out_seq_None_iff emit_def)

lemma emit_eq_iff [simp]: "emit s = (t, e) \<longleftrightarrow> t = s \<and> e = None"
  by (auto simp: emit_def)

lemma of_char_digit_char: "d < 10 \<Longrightarrow> of_char (digit_char d) = 48 + d"
  by (auto simp: digit_char_def less_Suc_eq numeral_eq_Suc)

lemma hex_val_hex_char: "d < 16 \<Longrightarrow> hex_val (hex_char d) = Some d"
proof -
  assume "d < 16"
  then have "d \<in> set [0..<16]" by simp
  then show ?thesis
    by (simp only: upt_conv_Cons set_simps insert_iff empty_iff, elim disjE)
      (simp_all add: hex_char_def hex_val_def is_digit_def digit_val_def less_eq_char_def)
qed

lemma is_digit_digit_char: "d < 10 \<Longrightarrow> is_digit (digit_char d)"
  by (simp add: is_digit_def less_eq_char_def of_char_digit_char)

lemma digit_val_digit_char: "d < 10 \<Longrightarrow> digit_val (digit_char d) = d"
  by (simp add: digit_val_def of_char_digit_char)

lemma digit_char_zero_iff:
  assumes "d < 10"
  shows "digit_char d = CHR ''0'' \<longleftrightarrow> d = 0"
proof
  assume "digit_char d = CHR ''0''"
  then have "of_char (digit_char d) = (of_char (CHR ''0'') :: nat)" by simp
  with assms show "d = 0" by (simp add: of_char_digit_char)
next
  assume "d = 0"
  then show "digit_char d = CHR ''0''" by (simp add: digit_char_def)
qed

lemma digits_of_nat_small: "n < 10 \<Longrightarrow> digits_of_nat n = [digit_char n]"
  by (simp add: digits_of_nat.simps)

lemma digits_of_nat_big: "\<not> n < 10 \<Longrightarrow> digits_of_nat n = digits_of_nat (n div 10) @ [digit_char (n mod 10)]"
  by (subst digits_of_nat.simps) simp

lemma digits_of_nat_is_digit: "c \<in> set (digits_of_nat n) \<Longrightarrow> is_digit c"
proof (induction n rule: digits_of_nat.induct)
  case (1 n)
  then show ?case
    by (cases "n < 10") (auto simp: digits_of_nat_small digits_of_nat_big is_digit_digit_char)
qed

lemma digits_of_nat_not_Nil [simp]: "digits_of_nat n \<noteq> []"
  by (cases "n < 10") (simp_all add: digits_of_nat_small digits_of_nat_big)

lemma nat_of_digits_snoc: "nat_of_digits (ds @ [c]) = 10 * nat_of_digits ds + digit_val c"
  by (simp add: nat_of_digits_def)

lemma nat_of_digits_digits_of_nat [simp]: "nat_of_digits (digits_of_nat n) = n"
proof (induction n rule: digits_of_nat.induct)
  case (1 n)
  then show ?case
    by (cases "n < 10")
      (simp_all add: digits_of_nat_small digits_of_nat_big nat_of_digits_snoc digit_val_digit_char
        nat_of_digits_def)
qed

lemma hd_digits_of_nat: "0 < n \<Longrightarrow> hd (digits_of_nat n) \<noteq> CHR ''0''"
proof (induction n rule: digits_of_nat.induct)
  case (1 n)
  then show ?case
    by (cases "n < 10") (simp_all add: digits_of_nat_small digits_of_nat_big digit_char_zero_iff)
qed

lemma length_digits_of_nat_le: "0 < k \<Longrightarrow> length (digits_of_nat n) \<le> k \<longleftrightarrow> n < 10 ^ k"
proof (induction n arbitrary: k rule: digits_of_nat.induct)
  case (1 n)
  show ?case
  proof (cases "n < 10")
    case True
    have "10 \<le> (10::nat) ^ k" using "1.prems" by (cases k) auto
    with True show ?thesis using "1.prems" by (simp add: digits_of_nat_small)
  next
    case False
    then have ih: "length (digits_of_nat (n div 10)) \<le> k' \<longleftrightarrow> n div 10 < 10 ^ k'" if "0 < k'" for k'
      using "1.IH" that by blast
    show ?thesis
    proof (cases k)
      case 0
      then show ?thesis using "1.prems" by simp
    next
      case (Suc k')
      show ?thesis
      proof (cases k')
        case 0
        with Suc False show ?thesis by (simp add: digits_of_nat_big)
      next
        case (Suc k'')
        then have "length (digits_of_nat (n div 10)) \<le> k' \<longleftrightarrow> n div 10 < 10 ^ k'" by (simp add: ih)
        moreover have "n div 10 < 10 ^ k' \<longleftrightarrow> n < 10 ^ Suc k'" by (auto simp: less_mult_imp_div_less)
        ultimately show ?thesis using \<open>k = Suc k'\<close> False by (simp add: digits_of_nat_big)
      qed
    qed
  qed
qed

lemma has_frac_Cons: "c \<noteq> CHR ''.'' \<Longrightarrow> \<not> has_frac (c # r)"
  by (cases r) (simp_all add: has_frac_def)

lemma has_exp_Cons: "c \<noteq> CHR ''e'' \<Longrightarrow> c \<noteq> CHR ''E'' \<Longrightarrow> \<not> has_exp (c # r)"
  by (simp add: has_exp_def)

lemma value_end_Cons:
  assumes "value_end (c # r)"
  shows "\<not> is_digit c" "c \<noteq> CHR ''.''" "c \<noteq> CHR ''e''" "c \<noteq> CHR ''E''"
proof -
  have "c \<in> set ws_chars \<or> c = CHR '','' \<or> c = CHR '']'' \<or> c = CHR ''}''"
    using assms by (simp add: value_end_def)
  then show "\<not> is_digit c" "c \<noteq> CHR ''.''" "c \<noteq> CHR ''e''" "c \<noteq> CHR ''E''"
    by (auto simp: ws_chars_def is_digit_def less_eq_char_def)
qed

lemma value_end_not_digit:
  assumes "value_end rest"
  shows "takeWhile is_digit rest = [] \<and> dropWhile is_digit rest = rest \<and>
    \<not> has_frac rest \<and> \<not> has_exp rest"
proof (cases rest)
  case Nil
  then show ?thesis by (simp add: has_frac_def has_exp_def)
next
  case (Cons c r)
  with value_end_Cons [of c r] assms show ?thesis by (simp add: has_frac_Cons has_exp_Cons)
qed

lemma match_int_part_digits:
  assumes "value_end rest"
  shows "match_int_part (digits_of_nat m @ rest) = Some (digits_of_nat m, rest)"
proof -
  obtain d ds where dd: "digits_of_nat m = d # ds" by (cases "digits_of_nat m") auto
  have dig: "is_digit x" if "x \<in> set (d # ds)" for x
    using that digits_of_nat_is_digit [of x m] dd by simp
  show ?thesis
  proof (cases "m = 0")
    case True
    then have "digits_of_nat m = [CHR ''0'']" by (simp add: digits_of_nat_small digit_char_def)
    then show ?thesis by (simp add: match_int_part_def)
  next
    case False
    then have "d \<noteq> CHR ''0''" using hd_digits_of_nat [of m] dd by simp
    moreover have "takeWhile is_digit (ds @ rest) = ds" "dropWhile is_digit (ds @ rest) = rest"
      using dig value_end_not_digit [OF assms] by (simp_all add: takeWhile_append2 dropWhile_append2)
    ultimately show ?thesis using dig [of d] by (simp add: match_int_part_def dd)
  qed
qed

lemma int_max_str_digits_pos: "0 < int_max_str_digits"
  by (simp add: int_max_str_digits_def)

lemma py_int_repr_ok_int64: "\<bar>i\<bar> < 2 ^ 63 \<Longrightarrow> py_int_repr_ok i"
proof -
  assume a: "\<bar>i\<bar> < 2 ^ 63"
  have "(2::int) ^ 63 < 10 ^ 63" by (rule power_strict_mono) auto
  also have "(10::int) ^ 63 \<le> 10 ^ int_max_str_digits"
    by (rule power_increasing) (simp_all add: int_max_str_digits_def)
  finally show ?thesis using a by (simp add: py_int_repr_ok_def)
qed

lemma scan_number_int:
  assumes "match_int_part (snd (scan_sign s)) = Some (ds, r)" and "\<not> has_frac r" and "\<not> has_exp r"
    and "length ds \<le> int_max_str_digits"
  shows "scan_number s = Inr (JInt ((if fst (scan_sign s) then - 1 else 1) * int (nat_of_digits ds)), r)"
  using assms unfolding scan_number_def by (simp add: not_less)

lemma scan_number_str_int:
  assumes "py_int_repr_ok i" and "value_end rest"
  shows "scan_number (str_int i @ rest) = Inr (JInt i, rest)"
proof -
  let ?m = "nat \<bar>i\<bar>"
  have "?m < 10 ^ int_max_str_digits"
    using assms(1) by (simp add: py_int_repr_ok_def nat_less_iff)
  then have len: "length (digits_of_nat ?m) \<le> int_max_str_digits"
    by (simp add: length_digits_of_nat_le [OF int_max_str_digits_pos])
  have m: "match_int_part (digits_of_nat ?m @ rest) = Some (digits_of_nat ?m, rest)"
    by (rule match_int_part_digits [OF assms(2)])
  have nf: "\<not> has_frac rest" "\<not> has_exp rest" using value_end_not_digit [OF assms(2)] by auto
  have sign: "scan_sign (str_int i @ rest) = (i < 0, digits_of_nat ?m @ rest)"
  proof (cases "i < 0")
    case True
    then show ?thesis by (simp add: scan_sign_def str_int_def)
  next
    case False
    obtain d ds where dd: "digits_of_nat ?m = d # ds" by (cases "digits_of_nat ?m") auto
    then have "is_digit d" using digits_of_nat_is_digit [of d ?m] by simp
    then have "d \<noteq> CHR ''-''" by (auto simp: is_digit_def less_eq_char_def)
    with False dd show ?thesis by (simp add: scan_sign_def str_int_def)
  qed
  have "(if i < 0 then - 1 else 1) * int ?m = i" by simp
  with scan_number_int [of "str_int i @ rest", OF _ nf len] sign m show ?thesis by simp
qed

lemma decode_u4_hex:
  assumes "n < 256"
  shows "decode_u4 (hex_char 0 # hex_char 0 # hex_char (n div 16) # hex_char (n mod 16) # X) = Some n"
proof -
  have "n div 16 < 16" using assms by simp
  then have "those (map hex_val [hex_char 0, hex_char 0, hex_char (n div 16), hex_char (n mod 16)]) =
      Some [0, 0, n div 16, n mod 16]"
    by (simp add: hex_val_hex_char)
  moreover have "foldl (\<lambda>acc d. 16 * acc + d) 0 [0, 0, n div 16, n mod 16] = n" by simp
  ultimately show ?thesis by (simp add: decode_u4_def)
qed

lemma scanstring_u_escape:
  "n < 256 \<Longrightarrow> scanstring acc (u_escape n @ X) = scanstring (acc @ [char_of n]) X"
  by (simp add: u_escape_def decode_u4_hex)


lemma scanstring_named_escape:
  assumes "c = bslash \<or> c = dquote \<or> c = CHR 0x08 \<or> c = CHR 0x0C \<or> c = CHR 0x0A \<or>
      c = CHR 0x0D \<or> c = CHR 0x09 \<or> (c = CHR ''/'' \<and> b)"
  shows "scanstring acc (escape_char b c @ X) = scanstring (acc @ [c]) X"
  using assms by (elim disjE conjE) (simp_all add: escape_char_def simple_escape_def)


lemma scanstring_escape_char: "scanstring acc (escape_char b c @ X) = scanstring (acc @ [c]) X"
proof (cases "c = bslash \<or> c = dquote \<or> c = CHR 0x08 \<or> c = CHR 0x0C \<or> c = CHR 0x0A \<or>
      c = CHR 0x0D \<or> c = CHR 0x09 \<or> (c = CHR ''/'' \<and> b)")
  case True
  then show ?thesis by (rule scanstring_named_escape)
next
  case named: False
  show ?thesis
  proof (cases "CHR '' '' \<le> c \<and> c \<le> CHR ''~''")
    case True
    then have "32 \<le> (of_char c :: nat)" by (simp add: less_eq_char_def)
    moreover have "escape_char b c = [c]" using named True by (simp add: escape_char_def)
    ultimately show ?thesis using named by simp
  next
    case False
    then have "escape_char b c = u_escape (of_char c)" using named by (auto simp: escape_char_def)
    then show ?thesis using scanstring_u_escape [of "of_char c" acc X] by simp
  qed
qed

lemma scanstring_encode:
  "scanstring acc (concat (map (escape_char b) s) @ dquote # rest) = Inr (acc @ s, rest)"
proof (induction s arbitrary: acc)
  case Nil
  then show ?case by simp
next
  case (Cons c s)
  then show ?case using scanstring_escape_char [of acc b c] by simp
qed

lemma scanstring_encode_str:
  "scanstring [] (tl (encode_str b s) @ rest) = Inr (s, rest)"
  using scanstring_encode [of "[]" b s rest] by (simp add: encode_str_def)

lemma length_skip_ws_le: "length (skip_ws s) \<le> length s"
  by (simp add: skip_ws_def length_dropWhile_le)

lemma res_bind_not_fuel:
  "m \<noteq> Inl Fuel_Exhausted \<Longrightarrow> (\<And>x. m = Inr x \<Longrightarrow> f x \<noteq> Inl Fuel_Exhausted) \<Longrightarrow>
   res_bind m f \<noteq> Inl Fuel_Exhausted"
  by (cases m) (auto simp: res_bind_def)

lemma scanstring_consumes: "scanstring acc s = Inr (k, r) \<Longrightarrow> length r < length s"
proof (induction acc s rule: scanstring.induct)
  case (1 acc)
  then show ?case by (simp add: raise_def)
next
  case (2 acc c s)
  show ?case
  proof (cases "c = dquote")
    case True
    with "2.prems" show ?thesis by simp
  next
    case nq: False
    show ?thesis
    proof (cases "c = bslash")
      case bs: True
      then obtain e s' where s: "s = e # s'"
        using "2.prems" nq by (cases s) (auto simp: raise_def)
      show ?thesis
      proof (cases "e = CHR ''u''")
        case True
        then obtain n where "decode_u4 s' = Some n" "n < 256"
          and "scanstring (acc @ [char_of n]) (drop 4 s') = Inr (k, r)"
          using "2.prems" nq bs s by (auto simp: raise_def split: option.splits if_splits)
        then have "length r < length (drop 4 s')" using "2.IH"(1) nq bs s True by blast
        then show ?thesis using s by simp
      next
        case False
        then obtain ch where "simple_escape e = Some ch" and "scanstring (acc @ [ch]) s' = Inr (k, r)"
          using "2.prems" nq bs s by (auto simp: raise_def split: option.splits)
        then have "length r < length s'" using "2.IH"(2) nq bs s False by blast
        then show ?thesis using s by simp
      qed
    next
      case False
      then have "\<not> of_char c < (32::nat)" "scanstring (acc @ [c]) s = Inr (k, r)"
        using "2.prems" nq by (auto simp: raise_def split: if_splits)
      then have "length r < length s" using "2.IH"(3) nq False by blast
      then show ?thesis by simp
    qed
  qed
qed

lemma scanstring_not_fuel: "scanstring acc s \<noteq> Inl Fuel_Exhausted"
  by (induction acc s rule: scanstring.induct)
    (auto simp: raise_def split: list.splits option.splits)

lemma match_int_part_consumes: "match_int_part s = Some (ds, r) \<Longrightarrow> length r < length s"
  by (auto simp: match_int_part_def length_dropWhile_le le_imp_less_Suc split: list.splits if_splits)

lemma scan_sign_length: "length (snd (scan_sign s)) \<le> length s"
  by (simp add: scan_sign_def split: list.splits)

lemma scan_number_consumes:
  assumes "scan_number s = Inr (v, r)"
  shows "length r < length s"
proof -
  obtain ds where "match_int_part (snd (scan_sign s)) = Some (ds, r)"
    using assms by (auto simp: scan_number_def raise_def split: option.splits if_splits)
  then have "length r < length (snd (scan_sign s))" by (rule match_int_part_consumes)
  with scan_sign_length [of s] show ?thesis by simp
qed

lemma scan_number_not_fuel: "scan_number s \<noteq> Inl Fuel_Exhausted"
  by (simp add: scan_number_def raise_def split: option.splits prod.splits)


lemma scan_once_Suc_Inr:
  assumes "scan_once (Suc n) (c # s) = Inr (v, r)"
  shows "(c = dquote \<and> (\<exists>str. scanstring [] s = Inr (str, r))) \<or>
    (c = CHR ''{'' \<and> (\<exists>d r0. skip_ws s = d # r0 \<and>
        ((d = CHR ''}'' \<and> r = r0) \<or> (d = dquote \<and> parse_object n [] r0 = Inr (v, r))))) \<or>
    (c = CHR ''['' \<and> (\<exists>d r0. skip_ws s = d # r0 \<and>
        ((d = CHR '']'' \<and> r = r0) \<or> (d \<noteq> CHR '']'' \<and> parse_array n [] (d # r0) = Inr (v, r))))) \<or>
    length r \<le> length s \<or> scan_number (c # s) = Inr (v, r)"
proof -
  consider (q) "c = dquote" | (o) "c \<noteq> dquote" "c = CHR ''{''" | (a) "c \<noteq> dquote" "c \<noteq> CHR ''{''" "c = CHR ''[''"
    | (other) "c \<noteq> dquote" "c \<noteq> CHR ''{''" "c \<noteq> CHR ''[''" by blast
  then show ?thesis
  proof cases
    case q
    then show ?thesis using assms by (auto simp: res_bind_eq_Inr)
  next
    case o
    then show ?thesis using assms by (auto simp: raise_def split: list.splits if_splits)
  next
    case a
    then show ?thesis using assms by (auto simp: raise_def split: list.splits if_splits)
  next
    case other
    then show ?thesis using assms by (auto split: if_splits)
  qed
qed


lemma parse_array_Suc_Inr:
  assumes "parse_array (Suc n) acc s = Inr (w, r)"
  shows "\<exists>v r1 d r'. scan_once n s = Inr (v, r1) \<and> skip_ws r1 = d # r' \<and>
    ((d = CHR '']'' \<and> r = r') \<or> (d = CHR '','' \<and> parse_array n (acc @ [v]) (skip_ws r') = Inr (w, r)))"
proof -
  from assms obtain v1 r1 where sc: "scan_once n s = Inr (v1, r1)"
    and rest: "(case skip_ws r1 of
         d # r' \<Rightarrow> if d = CHR '']'' then Inr (JArr (acc @ [v1]), r')
                   else if d = CHR '','' then parse_array n (acc @ [v1]) (skip_ws r')
                   else raise JSONDecodeError
       | [] \<Rightarrow> raise JSONDecodeError) = Inr (w, r)"
    by (auto simp: res_bind_eq_Inr)
  then obtain d r' where sk: "skip_ws r1 = d # r'" by (cases "skip_ws r1") (auto simp: raise_def)
  with rest have "(d = CHR '']'' \<and> r = r') \<or> (d = CHR '','' \<and> parse_array n (acc @ [v1]) (skip_ws r') = Inr (w, r))"
    by (auto simp: raise_def split: if_splits)
  with sc sk show ?thesis by blast
qed

lemma parse_object_Suc_Inr:
  assumes "parse_object (Suc n) acc s = Inr (w, r)"
  shows "\<exists>k r0 r1 v r2 e r3. scanstring [] s = Inr (k, r0) \<and> skip_ws r0 = CHR '':'' # r1 \<and>
    scan_once n (skip_ws r1) = Inr (v, r2) \<and> skip_ws r2 = e # r3 \<and>
    ((e = CHR ''}'' \<and> r = r3) \<or>
     (\<exists>r4. e = CHR '','' \<and> skip_ws r3 = dquote # r4 \<and> parse_object n (acc @ [(k, v)]) r4 = Inr (w, r)))"
proof -
  from assms obtain k r0 where ss: "scanstring [] s = Inr (k, r0)"
    and rest0: "(case skip_ws r0 of
         d # r1 \<Rightarrow>
           if d = CHR '':'' then
             res_bind (scan_once n (skip_ws r1)) (\<lambda>(v, r2).
               case skip_ws r2 of
                 e # r3 \<Rightarrow>
                   if e = CHR ''}'' then Inr (JObj (dict_updates (acc @ [(k, v)]) []), r3)
                   else if e = CHR '','' then
                     (case skip_ws r3 of
                        q # r4 \<Rightarrow> if q = dquote then parse_object n (acc @ [(k, v)]) r4
                                 else raise JSONDecodeError
                      | [] \<Rightarrow> raise JSONDecodeError)
                   else raise JSONDecodeError
               | [] \<Rightarrow> raise JSONDecodeError)
           else raise JSONDecodeError
       | [] \<Rightarrow> raise JSONDecodeError) = Inr (w, r)"
    by (auto simp: res_bind_eq_Inr)
  then obtain r1 where sk0: "skip_ws r0 = CHR '':'' # r1"
    by (cases "skip_ws r0") (auto simp: raise_def split: if_splits)
  with rest0 obtain v r2 where sc: "scan_once n (skip_ws r1) = Inr (v, r2)"
    and rest2: "(case skip_ws r2 of
                 e # r3 \<Rightarrow>
                   if e = CHR ''}'' then Inr (JObj (dict_updates (acc @ [(k, v)]) []), r3)
                   else if e = CHR '','' then
                     (case skip_ws r3 of
                        q # r4 \<Rightarrow> if q = dquote then parse_object n (acc @ [(k, v)]) r4
                                 else raise JSONDecodeError
                      | [] \<Rightarrow> raise JSONDecodeError)
                   else raise JSONDecodeError
               | [] \<Rightarrow> raise JSONDecodeError) = Inr (w, r)"
    by (auto simp: res_bind_eq_Inr)
  then obtain e r3 where sk2: "skip_ws r2 = e # r3" by (cases "skip_ws r2") (auto simp: raise_def)
  with rest2 have "(e = CHR ''}'' \<and> r = r3) \<or>
     (\<exists>r4. e = CHR '','' \<and> skip_ws r3 = dquote # r4 \<and> parse_object n (acc @ [(k, v)]) r4 = Inr (w, r))"
    by (auto simp: raise_def split: if_splits list.splits)
  with ss sk0 sc sk2 show ?thesis by blast
qed

lemma scan_once_consumes:
  shows "scan_once n s = Inr (v, r) \<Longrightarrow> length r < length s"
    and "parse_array n acc s = Inr (v, r) \<Longrightarrow> length r < length s"
    and "parse_object n acc' s = Inr (v, r) \<Longrightarrow> length r < length s"
proof (induction n s and n acc s and n acc' s arbitrary: v r and v r and v r
    rule: scan_once_parse_array_parse_object.induct)
  case (3 n c s)
  have sk: "length (skip_ws s) \<le> length s" by (rule length_skip_ws_le)
  from scan_once_Suc_Inr [OF "3.prems"] show ?case
  proof (elim disjE conjE exE)
    fix str assume "scanstring [] s = Inr (str, r)"
    then show ?thesis using scanstring_consumes by fastforce
  next
    fix d r0 assume "skip_ws s = d # r0" "d = CHR ''}''" "r = r0"
    then show ?thesis using sk by simp
  next
    fix d r0 assume a: "c = CHR ''{''" "skip_ws s = d # r0" "d = dquote" "parse_object n [] r0 = Inr (v, r)"
    then have "length r < length r0" using "3.IH"(1) [of d r0 v r] by auto
    then show ?thesis using sk a(2) by simp
  next
    fix d r0 assume "skip_ws s = d # r0" "d = CHR '']''" "r = r0"
    then show ?thesis using sk by simp
  next
    fix d r0 assume a: "c = CHR ''[''" "skip_ws s = d # r0" "d \<noteq> CHR '']''" "parse_array n [] (d # r0) = Inr (v, r)"
    then have "length r < length (d # r0)" using "3.IH"(2) [of d r0 v r] by auto
    then show ?thesis using sk a(2) by simp
  next
    assume "length r \<le> length s"
    then show ?thesis by simp
  next
    assume "scan_number (c # s) = Inr (v, r)"
    then show ?thesis by (rule scan_number_consumes)
  qed
next
  case (5 n acc s)
  from parse_array_Suc_Inr [OF "5.prems"] obtain v1 r1 d r' where
    a: "scan_once n s = Inr (v1, r1)" "skip_ws r1 = d # r'"
      "(d = CHR '']'' \<and> r = r') \<or> (d = CHR '','' \<and> parse_array n (acc @ [v1]) (skip_ws r') = Inr (v, r))"
    by blast
  have "length r1 < length s" using "5.IH"(1) a(1) by blast
  moreover have "length r' < length r1" using a(2) length_skip_ws_le [of r1] by simp
  moreover have "length r < length (skip_ws r')" if "parse_array n (acc @ [v1]) (skip_ws r') = Inr (v, r)" "d = CHR '',''"
    using a(2) that by (intro "5.IH"(2)) auto
  ultimately show ?case using a(3) length_skip_ws_le [of r'] by auto
next
  case (7 n acc s)
  from parse_object_Suc_Inr [OF "7.prems"] obtain k r0 r1 v1 r2 e r3 where
    a: "scanstring [] s = Inr (k, r0)" "skip_ws r0 = CHR '':'' # r1" "scan_once n (skip_ws r1) = Inr (v1, r2)"
      "skip_ws r2 = e # r3"
      "(e = CHR ''}'' \<and> r = r3) \<or>
       (\<exists>r4. e = CHR '','' \<and> skip_ws r3 = dquote # r4 \<and> parse_object n (acc @ [(k, v1)]) r4 = Inr (v, r))"
    by blast
  have l0: "length r0 < length s" using a(1) by (rule scanstring_consumes)
  have l1: "length r1 < length r0" using a(2) length_skip_ws_le [of r0] by simp
  have l2: "length r2 < length (skip_ws r1)" using "7.IH"(1) a by blast
  have l3: "length r3 < length r2" using a(4) length_skip_ws_le [of r2] by simp
  have "length r < length s"
    if r4: "skip_ws r3 = dquote # r4" "parse_object n (acc @ [(k, v1)]) r4 = Inr (v, r)" "e = CHR '',''" for r4
  proof -
    have "length r < length r4" using "7.IH"(2) a(1-4) r4 by blast
    moreover have "length r4 < length r3" using r4(1) length_skip_ws_le [of r3] by simp
    ultimately show ?thesis using l0 l1 l2 l3 length_skip_ws_le [of r1] by simp
  qed
  then show ?case using a(5) l0 l1 l2 l3 length_skip_ws_le [of r1] by auto
qed (simp_all add: raise_def)


lemma scan_once_Suc_fuel:
  assumes "scan_once (Suc n) (c # s) = Inl Fuel_Exhausted"
  shows "(c = CHR ''{'' \<and> (\<exists>r. skip_ws s = dquote # r \<and> parse_object n [] r = Inl Fuel_Exhausted)) \<or>
    (c = CHR ''['' \<and> (\<exists>d r. skip_ws s = d # r \<and> d \<noteq> CHR '']'' \<and>
       parse_array n [] (d # r) = Inl Fuel_Exhausted))"
proof -
  consider (q) "c = dquote" | (o) "c \<noteq> dquote" "c = CHR ''{''" | (a) "c \<noteq> dquote" "c \<noteq> CHR ''{''" "c = CHR ''[''"
    | (other) "c \<noteq> dquote" "c \<noteq> CHR ''{''" "c \<noteq> CHR ''[''" by blast
  then show ?thesis
  proof cases
    case q
    then show ?thesis using assms scanstring_not_fuel [of "[]" s] by (auto simp: res_bind_eq_Inl)
  next
    case o
    then show ?thesis using assms by (auto simp: raise_def split: list.splits if_splits)
  next
    case a
    then show ?thesis using assms by (auto simp: raise_def split: list.splits if_splits)
  next
    case other
    then show ?thesis using assms scan_number_not_fuel [of "c # s"] by (auto split: if_splits)
  qed
qed

lemma parse_array_Suc_fuel:
  assumes "parse_array (Suc n) acc s = Inl Fuel_Exhausted"
  shows "scan_once n s = Inl Fuel_Exhausted \<or>
    (\<exists>v r1 r'. scan_once n s = Inr (v, r1) \<and> skip_ws r1 = CHR '','' # r' \<and>
       parse_array n (acc @ [v]) (skip_ws r') = Inl Fuel_Exhausted)"
proof (cases "scan_once n s")
  case (Inl e)
  then show ?thesis using assms by simp
next
  case (Inr x)
  obtain v1 r1 where x: "x = (v1, r1)" by (cases x)
  show ?thesis
  proof (cases "skip_ws r1")
    case Nil
    then show ?thesis using assms Inr x by (simp add: raise_def)
  next
    case (Cons d r')
    then show ?thesis using assms Inr x by (auto simp: raise_def split: if_splits)
  qed
qed

lemma parse_object_Suc_fuel:
  assumes "parse_object (Suc n) acc s = Inl Fuel_Exhausted"
  shows "\<exists>k r0 r1. scanstring [] s = Inr (k, r0) \<and> skip_ws r0 = CHR '':'' # r1 \<and>
    (scan_once n (skip_ws r1) = Inl Fuel_Exhausted \<or>
     (\<exists>v r2 r3 r4. scan_once n (skip_ws r1) = Inr (v, r2) \<and> skip_ws r2 = CHR '','' # r3 \<and>
        skip_ws r3 = dquote # r4 \<and> parse_object n (acc @ [(k, v)]) r4 = Inl Fuel_Exhausted))"
proof -
  obtain k r0 where ss: "scanstring [] s = Inr (k, r0)"
    using assms scanstring_not_fuel [of "[]" s] by (cases "scanstring [] s") auto
  obtain r1 where sk0: "skip_ws r0 = CHR '':'' # r1"
    using assms ss by (cases "skip_ws r0") (auto simp: raise_def split: if_splits)
  have "scan_once n (skip_ws r1) = Inl Fuel_Exhausted \<or>
     (\<exists>v r2 r3 r4. scan_once n (skip_ws r1) = Inr (v, r2) \<and> skip_ws r2 = CHR '','' # r3 \<and>
        skip_ws r3 = dquote # r4 \<and> parse_object n (acc @ [(k, v)]) r4 = Inl Fuel_Exhausted)"
  proof (cases "scan_once n (skip_ws r1)")
    case (Inl e)
    then show ?thesis using assms ss sk0 by simp
  next
    case (Inr x)
    obtain v r2 where x: "x = (v, r2)" by (cases x)
    show ?thesis
    proof (cases "skip_ws r2")
      case Nil
      then show ?thesis using assms ss sk0 Inr x by (simp add: raise_def)
    next
      case (Cons e r3)
      then show ?thesis using assms ss sk0 Inr x
        by (auto simp: raise_def split: if_splits list.splits)
    qed
  qed
  with ss sk0 show ?thesis by blast
qed

lemma scan_once_fuel:
  shows "2 * length s < n \<Longrightarrow> scan_once n s \<noteq> Inl Fuel_Exhausted"
    and "2 * length s + 1 < n \<Longrightarrow> parse_array n acc s \<noteq> Inl Fuel_Exhausted"
    and "2 * length s + 1 < n \<Longrightarrow> parse_object n acc' s \<noteq> Inl Fuel_Exhausted"
proof (induction n s and n acc s and n acc' s rule: scan_once_parse_array_parse_object.induct)
  case (3 n c s)
  have sk: "length (skip_ws s) \<le> length s" by (rule length_skip_ws_le)
  show ?case
  proof
    assume "scan_once (Suc n) (c # s) = Inl Fuel_Exhausted"
    from scan_once_Suc_fuel [OF this] show False
    proof (elim disjE conjE exE)
      fix r assume a: "c = CHR ''{''" "skip_ws s = dquote # r" "parse_object n [] r = Inl Fuel_Exhausted"
      have "2 * length r + 1 < n" using "3.prems" sk a(2) by simp
      then show False using "3.IH"(1) a by auto
    next
      fix d r assume a: "c = CHR ''[''" "skip_ws s = d # r" "d \<noteq> CHR '']''"
        "parse_array n [] (d # r) = Inl Fuel_Exhausted"
      have "2 * length (d # r) + 1 < n" using "3.prems" sk a(2) by simp
      then show False using "3.IH"(2) a by auto
    qed
  qed
next
  case (5 n acc s)
  show ?case
  proof
    assume "parse_array (Suc n) acc s = Inl Fuel_Exhausted"
    from parse_array_Suc_fuel [OF this] show False
    proof (elim disjE exE conjE)
      assume "scan_once n s = Inl Fuel_Exhausted"
      then show False using "5.IH"(1) "5.prems" by simp
    next
      fix v r1 r' assume a: "scan_once n s = Inr (v, r1)" "skip_ws r1 = CHR '','' # r'"
        "parse_array n (acc @ [v]) (skip_ws r') = Inl Fuel_Exhausted"
      have "length r1 < length s" using a(1) by (rule scan_once_consumes(1))
      moreover have "length r' < length r1" using a(2) length_skip_ws_le [of r1] by simp
      ultimately have "2 * length (skip_ws r') + 1 < n"
        using "5.prems" length_skip_ws_le [of r'] by simp
      then show False using "5.IH"(2) a by auto
    qed
  qed
next
  case (7 n acc s)
  show ?case
  proof
    assume "parse_object (Suc n) acc s = Inl Fuel_Exhausted"
    from parse_object_Suc_fuel [OF this] obtain k r0 r1 where
      a: "scanstring [] s = Inr (k, r0)" "skip_ws r0 = CHR '':'' # r1"
      "scan_once n (skip_ws r1) = Inl Fuel_Exhausted \<or>
       (\<exists>v r2 r3 r4. scan_once n (skip_ws r1) = Inr (v, r2) \<and> skip_ws r2 = CHR '','' # r3 \<and>
        skip_ws r3 = dquote # r4 \<and> parse_object n (acc @ [(k, v)]) r4 = Inl Fuel_Exhausted)"
      by blast
    have l0: "length r0 < length s" using a(1) by (rule scanstring_consumes)
    have l1: "length (skip_ws r1) < length r0"
      using a(2) length_skip_ws_le [of r0] length_skip_ws_le [of r1] by simp
    from a(3) show False
    proof (elim disjE exE conjE)
      assume "scan_once n (skip_ws r1) = Inl Fuel_Exhausted"
      moreover have "2 * length (skip_ws r1) < n" using "7.prems" l0 l1 by simp
      ultimately show False using "7.IH"(1) a(1,2) by auto
    next
      fix v r2 r3 r4 assume b: "scan_once n (skip_ws r1) = Inr (v, r2)" "skip_ws r2 = CHR '','' # r3"
        "skip_ws r3 = dquote # r4" "parse_object n (acc @ [(k, v)]) r4 = Inl Fuel_Exhausted"
      have "length r2 < length (skip_ws r1)" using b(1) by (rule scan_once_consumes(1))
      moreover have "length r4 < length r2"
        using b(2,3) length_skip_ws_le [of r2] length_skip_ws_le [of r3] by simp
      ultimately have "2 * length r4 + 1 < n" using "7.prems" l0 l1 by simp
      then show False using "7.IH"(2) a(1,2) b by auto
    qed
  qed
qed (simp_all add: raise_def)

lemma json_loads_not_fuel: "json_loads s \<noteq> Inl Fuel_Exhausted"
proof -
  have "2 * length (skip_ws s) < 2 * length s + 1" using length_skip_ws_le [of s] by simp
  then have "scan_once (2 * length s + 1) (skip_ws s) \<noteq> Inl Fuel_Exhausted" by (rule scan_once_fuel(1))
  then show ?thesis
    by (auto simp: json_loads_def res_bind_eq_Inl raise_def split: if_splits)
qed

lemma skip_ws_Cons_nonws: "d \<notin> set ws_chars \<Longrightarrow> skip_ws (d # x) = d # x"
  by (simp add: skip_ws_def)

lemma skip_ws_append_ws: "set w \<subseteq> set ws_chars \<Longrightarrow> skip_ws (w @ x) = skip_ws x"
  by (induction w) (auto simp: skip_ws_def)

lemma newline_indent_ws: "set (newline_indent l) \<subseteq> set ws_chars"
  by (auto simp: newline_indent_def ws_chars_def)

lemma skip_ws_newline_indent: "skip_ws (newline_indent l @ x) = skip_ws x"
  by (rule skip_ws_append_ws [OF newline_indent_ws])

lemma value_end_newline_indent: "value_end (newline_indent l @ x)"
  by (simp add: value_end_def newline_indent_def ws_chars_def)

lemma iterencode_scalar: "\<not> is_container v \<Longrightarrow> iterencode c l v = chunk c [] v"
  by (cases v) simp_all

lemma chunk_None_iff: "chunk c buf v = (t, None) \<longleftrightarrow> (\<exists>s. scalar_text c v = Some s \<and> t = buf @ s)"
  by (auto simp: chunk_def split: option.splits)

lemma item_None_iff:
  "(if is_container v then out_seq (emit buf) (iterencode c l v) else chunk c buf v) = (t, None) \<longleftrightarrow>
   (\<exists>tv. iterencode c l v = (tv, None) \<and> t = buf @ tv)"
  by (cases "is_container v") (auto simp: iterencode_scalar chunk_None_iff)

lemma dict_value_out: "(if is_container v then iterencode c l v else chunk c [] v) = iterencode c l v"
  by (simp add: iterencode_scalar)

lemma iterencode_list_Cons_None:
  "iterencode_list c l buf (v # vs) = (t, None) \<longleftrightarrow>
   (\<exists>tv ts. iterencode c l v = (tv, None) \<and>
      iterencode_list c l (CHR '','' # newline_indent l) vs = (ts, None) \<and> t = buf @ tv @ ts)"
  by (auto simp: out_seq_None_iff item_None_iff)

lemma iterencode_dict_Cons_None:
  "iterencode_dict c l first ((k, v) # kvs) = (t, None) \<longleftrightarrow>
   (\<exists>tv ts. iterencode c l v = (tv, None) \<and> iterencode_dict c l False kvs = (ts, None) \<and>
      t = (if first then [] else CHR '','' # newline_indent l) @ encode_str (esc_slash c) k @
          key_sep c @ tv @ ts)"
  by (auto simp: out_seq_None_iff dict_value_out)

lemma str_int_hd: "\<exists>d t. str_int i = d # t \<and> (d = CHR ''-'' \<or> is_digit d)"
proof (cases "i < 0")
  case True
  then show ?thesis by (simp add: str_int_def)
next
  case False
  obtain d ds where dd: "digits_of_nat (nat i) = d # ds" by (cases "digits_of_nat (nat i)") auto
  then have "is_digit d" using digits_of_nat_is_digit [of d "nat i"] by simp
  with False dd show ?thesis by (simp add: str_int_def)
qed

lemma value_start_num: "d = CHR ''-'' \<or> is_digit d \<Longrightarrow> value_start d"
  by (auto simp: value_start_def ws_chars_def is_digit_def less_eq_char_def)

lemma iterencode_start:
  assumes "iterencode c l v = (t, None)" and "wf_json v"
  shows "\<exists>d t'. t = d # t' \<and> value_start d"
proof (cases v)
  case (JInt i)
  obtain d u where du: "str_int i = d # u" "d = CHR ''-'' \<or> is_digit d" using str_int_hd by blast
  have "t = str_int i" using assms JInt by (auto simp: chunk_None_iff split: if_splits)
  with du value_start_num show ?thesis by blast
next
  case (JArr vs)
  then show ?thesis using assms
    by (cases vs) (auto simp: value_start_def ws_chars_def out_seq_None_iff item_None_iff)
next
  case (JObj kvs)
  then show ?thesis using assms
    by (cases kvs) (auto simp: value_start_def ws_chars_def out_seq_None_iff)
qed (use assms in \<open>auto simp: chunk_None_iff value_start_def ws_chars_def encode_str_def\<close>)

lemma scan_once_scalar:
  assumes "\<not> is_container v" and "wf_json v" and "scalar_text c v = Some t" and "value_end rest"
  shows "scan_once (Suc n) (t @ rest) = Inr (v, rest)"
proof (cases v)
  case (JInt i)
  obtain d u where du: "str_int i = d # u" "d = CHR ''-'' \<or> is_digit d" using str_int_hd by blast
  have t: "t = str_int i" using assms(3) JInt by (simp split: if_splits)
  have "d \<noteq> dquote \<and> d \<noteq> CHR ''{'' \<and> d \<noteq> CHR ''['' \<and> d \<noteq> CHR ''n'' \<and> d \<noteq> CHR ''t'' \<and> d \<noteq> CHR ''f''"
    using du(2) by (auto simp: is_digit_def less_eq_char_def)
  then have "scan_once (Suc n) (t @ rest) = scan_number (t @ rest)" using t du(1) by simp
  also have "\<dots> = Inr (v, rest)"
    using scan_number_str_int [of i rest] assms(2,4) JInt t by simp
  finally show ?thesis .
next
  case (JStr s)
  then have "t = dquote # concat (map (escape_char (esc_slash c)) s) @ [dquote]"
    using assms(3) by (simp add: encode_str_def)
  then show ?thesis using JStr scanstring_encode [of "[]" "esc_slash c" s rest] by simp
next
  case (JBool b)
  then show ?thesis using assms(3) by (cases b) auto
qed (use assms in auto)

lemma skip_ws_indent_Cons:
  "d \<notin> set ws_chars \<Longrightarrow> skip_ws (newline_indent l @ d # x) = d # x"
  by (simp add: skip_ws_newline_indent skip_ws_Cons_nonws)

lemma close_not_ws: "CHR '']'' \<notin> set ws_chars" "CHR ''}'' \<notin> set ws_chars"
  "CHR '','' \<notin> set ws_chars" "CHR '':'' \<notin> set ws_chars" "dquote \<notin> set ws_chars"
  by (simp_all add: ws_chars_def)

lemma iterencode_JObj_Cons_None:
  "iterencode c l (JObj ((k, v) # kvs)) = (t, None) \<longleftrightarrow>
   (\<exists>tv ts. iterencode c (Suc l) v = (tv, None) \<and> iterencode_dict c (Suc l) False kvs = (ts, None) \<and>
      t = CHR ''{'' # newline_indent (Suc l) @ encode_str (esc_slash c) k @ key_sep c @ tv @ ts @
          newline_indent l @ ''}'')"
  by (simp only: iterencode.simps out_seq_emit_None_iff out_seq_None_iff iterencode_dict_Cons_None) auto

lemma iterencode_JArr_Cons_None:
  "iterencode c l (JArr (v # vs)) = (t, None) \<longleftrightarrow>
   (\<exists>tv ts. iterencode c (Suc l) v = (tv, None) \<and>
      iterencode_list c (Suc l) (CHR '','' # newline_indent (Suc l)) vs = (ts, None) \<and>
      t = CHR ''['' # newline_indent (Suc l) @ tv @ ts @ newline_indent l @ '']'')"
  by (simp only: iterencode.simps out_seq_emit_None_iff out_seq_None_iff iterencode_list_Cons_None) auto
lemma parse_array_roundtrip:
  assumes IH: "\<And>x l t rest n. x \<in> set (v # vs) \<Longrightarrow> iterencode c l x = (t, None) \<Longrightarrow> wf_json x \<Longrightarrow>
      value_end rest \<Longrightarrow> 2 * length (t @ rest) < n \<Longrightarrow> scan_once n (t @ rest) = Inr (x, rest)"
    and "iterencode c l v = (tv, None)"
    and "iterencode_list c l (CHR '','' # newline_indent l) vs = (ts, None)"
    and "wf_json v" and "wf_json_list vs"
    and "2 * length (tv @ ts @ newline_indent l' @ CHR '']'' # rest) + 1 < n"
  shows "parse_array n acc (tv @ ts @ newline_indent l' @ CHR '']'' # rest) =
    Inr (JArr (acc @ v # vs), rest)"
  using assms
proof (induction vs arbitrary: v tv ts acc n)
  case Nil
  obtain m where n: "n = Suc m" using Nil.prems(6) by (cases n) auto
  have ts: "ts = []" using Nil.prems(3) by simp
  have "scan_once m (tv @ newline_indent l' @ CHR '']'' # rest) = Inr (v, newline_indent l' @ CHR '']'' # rest)"
    using Nil.prems(1) [of v l tv "newline_indent l' @ CHR '']'' # rest" m] Nil.prems(2,4,6) ts n
    by (simp add: value_end_newline_indent)
  then show ?case using n ts by (simp add: skip_ws_indent_Cons close_not_ws)
next
  case (Cons v2 vs')
  obtain m where n: "n = Suc m" using Cons.prems(6) by (cases n) auto
  obtain tv2 ts2 where it: "iterencode c l v2 = (tv2, None)"
    "iterencode_list c l (CHR '','' # newline_indent l) vs' = (ts2, None)"
    "ts = CHR '','' # newline_indent l @ tv2 @ ts2"
    using iterencode_list_Cons_None [THEN iffD1, OF Cons.prems(3)] by auto
  let ?tail = "newline_indent l' @ CHR '']'' # rest"
  have wf: "wf_json v2" "wf_json_list vs'" using Cons.prems(5) by simp_all
  have "scan_once m (tv @ ts @ ?tail) = Inr (v, ts @ ?tail)"
    using Cons.prems(1) [of v l tv "ts @ ?tail" m] Cons.prems(2,4,6) n it(3)
    by (simp add: value_end_def)
  moreover obtain d t' where "tv2 = d # t'" "value_start d" using iterencode_start [OF it(1) wf(1)] by blast
  then have "skip_ws (newline_indent l @ tv2 @ ts2 @ ?tail) = tv2 @ ts2 @ ?tail"
    by (simp add: skip_ws_newline_indent skip_ws_Cons_nonws value_start_def)
  moreover have "parse_array m (acc @ [v]) (tv2 @ ts2 @ ?tail) = Inr (JArr ((acc @ [v]) @ v2 # vs'), rest)"
  proof (rule Cons.IH)
    show "\<And>x l t rest n. x \<in> set (v2 # vs') \<Longrightarrow> iterencode c l x = (t, None) \<Longrightarrow> wf_json x \<Longrightarrow>
        value_end rest \<Longrightarrow> 2 * length (t @ rest) < n \<Longrightarrow> scan_once n (t @ rest) = Inr (x, rest)"
      using Cons.prems(1) by simp
    show "2 * length (tv2 @ ts2 @ ?tail) + 1 < m" using Cons.prems(6) n it(3) by simp
  qed (use it wf in auto)
  ultimately show ?case using n it(3) by (simp add: skip_ws_Cons_nonws close_not_ws)
qed


lemma valid_cfg_key_sep:
  assumes "valid_cfg c"
  obtains w where "key_sep c = CHR '':'' # w" "set w \<subseteq> set ws_chars"
  using assms by (cases "key_sep c") (auto simp: valid_cfg_def list_all_iff)

lemma skip_ws_key_sep:
  assumes "key_sep c = CHR '':'' # w"
  shows "skip_ws (key_sep c @ y) = CHR '':'' # w @ y"
  using assms by (simp add: skip_ws_Cons_nonws close_not_ws)

lemma parse_object_roundtrip:
  assumes IH: "\<And>x l t rest n. x \<in> snd ` set ((k, v) # kvs) \<Longrightarrow> iterencode c l x = (t, None) \<Longrightarrow>
      wf_json x \<Longrightarrow> value_end rest \<Longrightarrow> 2 * length (t @ rest) < n \<Longrightarrow> scan_once n (t @ rest) = Inr (x, rest)"
    and cfg: "valid_cfg c"
    and "iterencode c l v = (tv, None)" and "iterencode_dict c l False kvs = (ts, None)"
    and "wf_json v" and "wf_json_items kvs"
    and "2 * length (tl (encode_str (esc_slash c) k) @ key_sep c @ tv @ ts @
           newline_indent l' @ CHR ''}'' # rest) + 1 < n"
  shows "parse_object n acc (tl (encode_str (esc_slash c) k) @ key_sep c @ tv @ ts @
           newline_indent l' @ CHR ''}'' # rest) =
    Inr (JObj (dict_updates (acc @ (k, v) # kvs) []), rest)"
  using assms
proof (induction kvs arbitrary: k v tv ts acc n)
  case Nil
  obtain m where n: "n = Suc m" using Nil.prems(7) by (cases n) auto
  obtain w where w: "key_sep c = CHR '':'' # w" "set w \<subseteq> set ws_chars"
    using valid_cfg_key_sep [OF cfg] by blast
  have ts: "ts = []" using Nil.prems(4) by simp
  let ?tail = "newline_indent l' @ CHR ''}'' # rest"
  have ss: "scanstring [] (tl (encode_str (esc_slash c) k) @ key_sep c @ tv @ ?tail) =
      Inr (k, key_sep c @ tv @ ?tail)" by (rule scanstring_encode_str)
  have ks: "skip_ws (key_sep c @ tv @ ?tail) = CHR '':'' # w @ tv @ ?tail"
    by (rule skip_ws_key_sep [OF w(1)])
  obtain d t' where "tv = d # t'" "value_start d" using iterencode_start [OF Nil.prems(3,5)] by blast
  then have sk: "skip_ws (w @ tv @ ?tail) = tv @ ?tail"
    by (simp add: skip_ws_append_ws [OF w(2)] skip_ws_Cons_nonws value_start_def)
  have sc: "scan_once m (tv @ ?tail) = Inr (v, ?tail)"
    using Nil.prems(1) [of v l tv ?tail m] Nil.prems(3,5,7) n
    by (simp add: value_end_newline_indent)
  have st: "skip_ws ?tail = CHR ''}'' # rest" by (simp add: skip_ws_indent_Cons close_not_ws)
  show ?case by (simp add: n ts ss ks sk sc st)
next
  case (Cons kv kvs')
  obtain k2 v2 where kv: "kv = (k2, v2)" by (cases kv)
  obtain m where n: "n = Suc m" using Cons.prems(7) by (cases n) auto
  obtain w where w: "key_sep c = CHR '':'' # w" "set w \<subseteq> set ws_chars"
    using valid_cfg_key_sep [OF cfg] by blast
  obtain tv2 ts2 where it: "iterencode c l v2 = (tv2, None)" "iterencode_dict c l False kvs' = (ts2, None)"
    "ts = CHR '','' # newline_indent l @ encode_str (esc_slash c) k2 @ key_sep c @ tv2 @ ts2"
    using iterencode_dict_Cons_None [THEN iffD1, OF Cons.prems(4) [unfolded kv]] by auto
  have wf: "wf_json v2" "wf_json_items kvs'" using Cons.prems(6) kv by simp_all
  let ?tail = "newline_indent l' @ CHR ''}'' # rest"
  let ?rest2 = "tl (encode_str (esc_slash c) k2) @ key_sep c @ tv2 @ ts2 @ ?tail"
  have ss: "scanstring [] (tl (encode_str (esc_slash c) k) @ key_sep c @ tv @ ts @ ?tail) =
      Inr (k, key_sep c @ tv @ ts @ ?tail)" by (rule scanstring_encode_str)
  have ks: "skip_ws (key_sep c @ tv @ ts @ ?tail) = CHR '':'' # w @ tv @ ts @ ?tail"
    by (rule skip_ws_key_sep [OF w(1)])
  obtain d t' where "tv = d # t'" "value_start d" using iterencode_start [OF Cons.prems(3,5)] by blast
  then have sk: "skip_ws (w @ tv @ ts @ ?tail) = tv @ ts @ ?tail"
    by (simp add: skip_ws_append_ws [OF w(2)] skip_ws_Cons_nonws value_start_def)
  have sc: "scan_once m (tv @ ts @ ?tail) = Inr (v, ts @ ?tail)"
    using Cons.prems(1) [of v l tv "ts @ ?tail" m] Cons.prems(3,5,7) n it(3)
    by (simp add: value_end_def)
  have ek: "encode_str (esc_slash c) k2 = dquote # tl (encode_str (esc_slash c) k2)"
    by (simp add: encode_str_def)
  have st: "skip_ws (ts @ ?tail) = CHR '','' # newline_indent l @ encode_str (esc_slash c) k2 @ key_sep c @ tv2 @ ts2 @ ?tail"
    using it(3) by (simp add: skip_ws_Cons_nonws close_not_ws)
  have st2: "skip_ws (newline_indent l @ encode_str (esc_slash c) k2 @ key_sep c @ tv2 @ ts2 @ ?tail) =
      dquote # ?rest2"
    by (subst ek) (simp add: skip_ws_indent_Cons close_not_ws)
  have rec: "parse_object m (acc @ [(k, v)]) ?rest2 =
      Inr (JObj (dict_updates ((acc @ [(k, v)]) @ (k2, v2) # kvs') []), rest)"
  proof (rule Cons.IH)
    show "\<And>x l t rest n. x \<in> snd ` set ((k2, v2) # kvs') \<Longrightarrow> iterencode c l x = (t, None) \<Longrightarrow>
        wf_json x \<Longrightarrow> value_end rest \<Longrightarrow> 2 * length (t @ rest) < n \<Longrightarrow> scan_once n (t @ rest) = Inr (x, rest)"
      using Cons.prems(1) kv by auto
    show "2 * length ?rest2 + 1 < m"
      using Cons.prems(7) n it(3) by (simp add: encode_str_def)
  qed (use it wf cfg in auto)
  show ?case using rec kv by (simp add: n ss ks sk sc st st2 del: append_assoc) simp
qed

lemma iterencode_roundtrip:
  assumes cfg: "valid_cfg c"
  shows "iterencode c l v = (t, None) \<Longrightarrow> wf_json v \<Longrightarrow> value_end rest \<Longrightarrow> 2 * length (t @ rest) < n \<Longrightarrow>
    scan_once n (t @ rest) = Inr (v, rest)"
proof (induction v arbitrary: l t rest n)
  case (JArr vs)
  obtain m where n: "n = Suc m" using JArr.prems(4) by (cases n) auto
  show ?case
  proof (cases vs)
    case Nil
    then show ?thesis using JArr.prems n by (simp add: skip_ws_Cons_nonws close_not_ws)
  next
    case (Cons v vs')
    obtain tv ts where it: "iterencode c (Suc l) v = (tv, None)"
      "iterencode_list c (Suc l) (CHR '','' # newline_indent (Suc l)) vs' = (ts, None)"
      "t = CHR ''['' # newline_indent (Suc l) @ tv @ ts @ newline_indent l @ '']''"
      using JArr.prems(1) Cons iterencode_JArr_Cons_None by blast
    have wf: "wf_json v" "wf_json_list vs'" using JArr.prems(2) Cons by simp_all
    let ?tail = "newline_indent l @ CHR '']'' # rest"
    have pa: "parse_array m [] (tv @ ts @ ?tail) = Inr (JArr ([] @ v # vs'), rest)"
      by (rule parse_array_roundtrip [OF _ it(1,2) wf])
        (use JArr.IH Cons JArr.prems(4) n it(3) in auto)
    obtain d t' where d: "tv = d # t'" "value_start d" using iterencode_start [OF it(1) wf(1)] by blast
    have sk: "skip_ws (newline_indent (Suc l) @ tv @ ts @ ?tail) = tv @ ts @ ?tail"
      using d by (simp add: skip_ws_newline_indent skip_ws_Cons_nonws value_start_def)
    show ?thesis using d(1) d(2) pa sk n it(3) Cons by (simp add: value_start_def)
  qed
next
  case (JObj kvs)
  obtain m where n: "n = Suc m" using JObj.prems(4) by (cases n) auto
  show ?case
  proof (cases kvs)
    case Nil
    then show ?thesis using JObj.prems n by (simp add: skip_ws_Cons_nonws close_not_ws)
  next
    case (Cons kv kvs')
    obtain k v where kv: "kv = (k, v)" by (cases kv)
    obtain tv ts where it: "iterencode c (Suc l) v = (tv, None)" "iterencode_dict c (Suc l) False kvs' = (ts, None)"
      "t = CHR ''{'' # newline_indent (Suc l) @ encode_str (esc_slash c) k @ key_sep c @ tv @ ts @
           newline_indent l @ ''}''"
      using JObj.prems(1) Cons kv iterencode_JObj_Cons_None by blast
    have wf: "wf_json v" "wf_json_items kvs'" "distinct (map fst kvs)" using JObj.prems(2) Cons kv by simp_all
    have IH: "scan_once n' (t' @ rest') = Inr (x, rest')"
      if "x \<in> snd ` set ((k, v) # kvs')" "iterencode c l' x = (t', None)" "wf_json x" "value_end rest'"
        "2 * length (t' @ rest') < n'" for x l' t' rest' n'
    proof -
      from that(1) obtain p where p: "p \<in> set ((k, v) # kvs')" "x = snd p" by blast
      then have "(fst p, x) \<in> set kvs" using Cons kv by simp
      then show ?thesis using JObj.IH [of "(fst p, x)" x] that(2-5) by simp
    qed
    let ?rest1 = "tl (encode_str (esc_slash c) k) @ key_sep c @ tv @ ts @ newline_indent l @ CHR ''}'' # rest"
    have len: "length ?rest1 + 2 \<le> length (t @ rest)"
      using it(3) by (simp add: newline_indent_def encode_str_def)
    have po: "parse_object m [] ?rest1 = Inr (JObj (dict_updates ([] @ (k, v) # kvs') []), rest)"
    proof (rule parse_object_roundtrip [OF IH cfg it(1,2) wf(1,2)])
      have "2 * length (t @ rest) < Suc m" using JObj.prems(4) n by simp
      then show "2 * length ?rest1 + 1 < m" using len by linarith
    qed
    have du: "dict_updates ((k, v) # kvs') [] = (k, v) # kvs'"
      using wf(3) Cons kv by (simp add: dict_updates_fresh)
    have ek: "encode_str (esc_slash c) k = dquote # tl (encode_str (esc_slash c) k)"
      by (simp add: encode_str_def)
    have sk: "skip_ws (newline_indent (Suc l) @ encode_str (esc_slash c) k @ key_sep c @ tv @ ts @
           newline_indent l @ CHR ''}'' # rest) = dquote # ?rest1"
      by (subst ek) (simp add: skip_ws_indent_Cons close_not_ws)
    have "t @ rest = CHR ''{'' # newline_indent (Suc l) @ encode_str (esc_slash c) k @ key_sep c @ tv @ ts @
           newline_indent l @ CHR ''}'' # rest" using it(3) by simp
    then show ?thesis using po du sk n Cons kv by (simp del: append_assoc) (simp add: close_not_ws)
  qed
next
  case (JInt i)
  then show ?case
    using scan_once_scalar [of "JInt i" c t rest] by (cases n) (auto simp: chunk_None_iff)
next
  case (JStr s)
  then show ?case
    using scan_once_scalar [of "JStr s" c t rest] by (cases n) (auto simp: chunk_None_iff)
next
  case JNull
  then show ?case
    using scan_once_scalar [of JNull c t rest] by (cases n) (auto simp: chunk_None_iff)
next
  case (JBool b)
  then show ?case
    using scan_once_scalar [of "JBool b" c t rest] by (cases n) (auto simp: chunk_None_iff)
qed simp


lemma snd_out_seq: "snd (out_seq a b) = (case snd a of None \<Rightarrow> snd b | Some e \<Rightarrow> Some e)"
  by (simp add: out_seq_def split: option.splits)

lemma chunk_exc:
  "\<not> is_container v \<Longrightarrow>
   snd (chunk c buf v) = (if list_all (int_ok c) (json_ints v) then None else Some (int_exc c))"
  by (cases v) (simp_all add: chunk_def)

lemma iterencode_exc:
  shows "snd (iterencode c l v) = (if list_all (int_ok c) (json_ints v) then None else Some (int_exc c))"
    and "snd (iterencode_list c l buf vs) =
           (if list_all (int_ok c) (json_ints_list vs) then None else Some (int_exc c))"
    and "snd (iterencode_dict c l first kvs) =
           (if list_all (int_ok c) (json_ints_items kvs) then None else Some (int_exc c))"
  by (induction c l v and c l buf vs and c l first kvs rule: iterencode_iterencode_list_iterencode_dict.induct)
    (simp_all add: snd_out_seq chunk_exc split: option.splits)

lemma wf_json_ints:
  shows "wf_json v \<Longrightarrow> list_all py_int_repr_ok (json_ints v)"
    and "wf_json_list vs \<Longrightarrow> list_all py_int_repr_ok (json_ints_list vs)"
    and "wf_json_items kvs \<Longrightarrow> list_all py_int_repr_ok (json_ints_items kvs)"
  by (induction v and vs and kvs rule: wf_json_wf_json_list_wf_json_items.induct) auto

lemma json_loads_iterencode:
  assumes "valid_cfg c" and "iterencode c 0 v = (t, None)" and "wf_json v"
  shows "json_loads t = Inr v"
proof -
  obtain d t' where d: "t = d # t'" "value_start d" using iterencode_start [OF assms(2,3)] by blast
  then have sk: "skip_ws t = t" by (simp add: skip_ws_Cons_nonws value_start_def)
  have "scan_once (2 * length t + 1) (t @ []) = Inr (v, [])"
    by (rule iterencode_roundtrip [OF assms(1,2,3)]) (simp_all add: value_end_def)
  then show ?thesis using sk by (simp add: json_loads_def skip_ws_def)
qed

lemma valid_py_dump_cfg: "valid_cfg py_dump_cfg"
  by (simp add: valid_cfg_def py_dump_cfg_def ws_chars_def)

lemma iterencode_py_None:
  assumes "list_all py_int_repr_ok (json_ints v)"
  obtains t where "iterencode py_dump_cfg l v = (t, None)"
proof -
  have "snd (iterencode py_dump_cfg l v) = None"
    using iterencode_exc(1) [of py_dump_cfg l v] assms by (simp add: py_dump_cfg_def)
  then show ?thesis using that by (cases "iterencode py_dump_cfg l v") auto
qed

text \<open>An integer literal of more than \<open>int_max_str_digits\<close> digits: \<open>ValueError\<close>, which is
  not a \<open>JSONDecodeError\<close>.\<close>

lemma json_loads_long_int:
  assumes "is_digit c" and "c \<noteq> CHR ''0''" and "list_all is_digit ds"
    and "int_max_str_digits < Suc (length ds)"
  shows "json_loads (c # ds) = raise ValueError"
proof -
  have ws: "skip_ws (c # ds) = c # ds"
    using assms(1) by (intro skip_ws_Cons_nonws) (auto simp: is_digit_def ws_chars_def)
  have mi: "match_int_part (c # ds) = Some (c # ds, [])"
    using assms(1-3) by (simp add: match_int_part_def list_all_iff)
  have "scan_number (c # ds) = raise ValueError"
    using assms(1,4) mi by (auto simp: scan_number_def scan_sign_def has_frac_def has_exp_def is_digit_def)
  moreover have "take 4 (c # ds) \<noteq> ''null'' \<and> take 4 (c # ds) \<noteq> ''true'' \<and> take 5 (c # ds) \<noteq> ''false''"
    using assms(1) by (auto simp: is_digit_def)
  moreover have "c \<noteq> dquote \<and> c \<noteq> CHR ''{'' \<and> c \<noteq> CHR ''[''"
    using assms(1) by (auto simp: is_digit_def)
  ultimately show ?thesis by (simp add: json_loads_def ws raise_def)
qed

text \<open>What the decoder returns is well formed: the lemmas on values.\<close>

lemma wf_json_list_iff: "wf_json_list vs \<longleftrightarrow> list_all wf_json vs"
  by (induction vs) auto

lemma wf_json_items_iff: "wf_json_items kvs \<longleftrightarrow> (\<forall>(k, v) \<in> set kvs. wf_json v)"
  by (induction kvs) auto

lemma dict_updates_wf:
  assumes "distinct (map fst acc)" and "\<forall>(k, v) \<in> set acc. wf_json v" and "\<forall>(k, v) \<in> set kvs. wf_json v"
  shows "distinct (map fst (dict_updates kvs acc)) \<and> (\<forall>(k, v) \<in> set (dict_updates kvs acc). wf_json v)"
  using assms
proof (induction kvs arbitrary: acc)
  case Nil
  then show ?case by (simp add: dict_updates_def)
next
  case (Cons kv kvs)
  obtain k v where kv: "kv = (k, v)" by (cases kv)
  have "distinct (map fst (AList.update k v acc))" using Cons.prems(1) by (rule distinct_update)
  moreover have "\<forall>(k', v') \<in> set (AList.update k v acc). wf_json v'"
    using set_update_subset [of k v acc] Cons.prems(2,3) kv by fastforce
  ultimately have "distinct (map fst (dict_updates kvs (AList.update k v acc))) \<and>
      (\<forall>(k', v') \<in> set (dict_updates kvs (AList.update k v acc)). wf_json v')"
    using Cons.IH Cons.prems(3) by simp
  then show ?case by (simp add: kv dict_updates_def)
qed

lemma digit_val_less: "is_digit c \<Longrightarrow> digit_val c < 10"
  by (auto simp: is_digit_def digit_val_def less_eq_char_def)

lemma nat_of_digits_less: "list_all is_digit ds \<Longrightarrow> nat_of_digits ds < 10 ^ length ds"
proof (induction ds rule: rev_induct)
  case Nil
  then show ?case by (simp add: nat_of_digits_def)
next
  case (snoc c ds)
  then have "nat_of_digits ds < 10 ^ length ds" "digit_val c < 10" by (auto simp: digit_val_less)
  then show ?case by (simp add: nat_of_digits_snoc)
qed

lemma is_digit_zero: "is_digit (CHR ''0'')"
  by (simp add: is_digit_def)

lemma match_int_part_is_digit: "match_int_part s = Some (ds, r) \<Longrightarrow> list_all is_digit ds"
  by (auto simp: match_int_part_def list_all_iff is_digit_zero dest: set_takeWhileD split: list.splits if_splits)

lemma scan_number_value:
  assumes "scan_number s = Inr (v, r)"
  shows "\<exists>i. v = JInt i \<and> py_int_repr_ok i"
proof -
  obtain ds where m: "match_int_part (snd (scan_sign s)) = Some (ds, r)"
    and len: "length ds \<le> int_max_str_digits"
    and v: "v = JInt ((if fst (scan_sign s) then - 1 else 1) * int (nat_of_digits ds))"
    using assms by (auto simp: scan_number_def raise_def not_less split: option.splits if_splits)
  have "nat_of_digits ds < 10 ^ length ds" by (rule nat_of_digits_less [OF match_int_part_is_digit [OF m]])
  also have "\<dots> \<le> 10 ^ int_max_str_digits" using len by (rule power_increasing) simp
  finally have "int (nat_of_digits ds) < 10 ^ int_max_str_digits" by (simp add: of_nat_less_iff [symmetric])
  then show ?thesis using v by (auto simp: py_int_repr_ok_def)
qed

lemma scan_once_Suc_value:
  assumes "scan_once (Suc n) (c # s) = Inr (v, r)"
  shows "(\<exists>str. v = JStr str) \<or> v = JNull \<or> (\<exists>b. v = JBool b) \<or> v = JObj [] \<or> v = JArr [] \<or>
    (\<exists>r0. parse_object n [] r0 = Inr (v, r)) \<or> (\<exists>s'. parse_array n [] s' = Inr (v, r)) \<or>
    scan_number (c # s) = Inr (v, r)"
  using assms by (auto simp: res_bind_eq_Inr raise_def split: list.splits if_splits)

lemma parse_array_Suc_value:
  assumes "parse_array (Suc n) acc s = Inr (w, r)"
  shows "\<exists>v r1. scan_once n s = Inr (v, r1) \<and>
    (w = JArr (acc @ [v]) \<or> (\<exists>s'. parse_array n (acc @ [v]) s' = Inr (w, r)))"
proof -
  obtain v r1 d r' where sc: "scan_once n s = Inr (v, r1)" and sk: "skip_ws r1 = d # r'"
    and "(d = CHR '']'' \<and> r = r') \<or> (d = CHR '','' \<and> parse_array n (acc @ [v]) (skip_ws r') = Inr (w, r))"
    using parse_array_Suc_Inr [OF assms] by blast
  moreover have "d = CHR '']'' \<Longrightarrow> w = JArr (acc @ [v])" using assms sc sk by simp
  ultimately show ?thesis by blast
qed

lemma parse_object_Suc_value:
  assumes "parse_object (Suc n) acc s = Inr (w, r)"
  shows "\<exists>k v s1 r1. scan_once n s1 = Inr (v, r1) \<and>
    (w = JObj (dict_updates (acc @ [(k, v)]) []) \<or> (\<exists>s'. parse_object n (acc @ [(k, v)]) s' = Inr (w, r)))"
proof -
  obtain k r0 r1 v r2 e r3 where "scan_once n (skip_ws r1) = Inr (v, r2)" and "skip_ws r2 = e # r3"
    and rest: "(e = CHR ''}'' \<and> r = r3) \<or>
      (\<exists>r4. e = CHR '','' \<and> skip_ws r3 = dquote # r4 \<and> parse_object n (acc @ [(k, v)]) r4 = Inr (w, r))"
    and "scanstring [] s = Inr (k, r0)" "skip_ws r0 = CHR '':'' # r1"
    using parse_object_Suc_Inr [OF assms] by blast
  moreover have "e = CHR ''}'' \<Longrightarrow> w = JObj (dict_updates (acc @ [(k, v)]) [])"
    using assms calculation by (auto simp: res_bind_eq_Inr)
  ultimately show ?thesis by blast
qed

lemma scan_once_wf_all:
  "(\<forall>s v r. scan_once n s = Inr (v, r) \<longrightarrow> wf_json v) \<and>
   (\<forall>acc s v r. parse_array n acc s = Inr (v, r) \<longrightarrow> wf_json_list acc \<longrightarrow> wf_json v) \<and>
   (\<forall>acc s v r. parse_object n acc s = Inr (v, r) \<longrightarrow> wf_json_items acc \<longrightarrow> wf_json v)"
proof (induction n)
  case 0
  then show ?case by simp
next
  case (Suc n)
  then have IH1: "\<And>s v r. scan_once n s = Inr (v, r) \<Longrightarrow> wf_json v"
    and IH2: "\<And>acc s v r. parse_array n acc s = Inr (v, r) \<Longrightarrow> wf_json_list acc \<Longrightarrow> wf_json v"
    and IH3: "\<And>acc s v r. parse_object n acc s = Inr (v, r) \<Longrightarrow> wf_json_items acc \<Longrightarrow> wf_json v"
    by blast+
  have A: "wf_json v" if a: "scan_once (Suc n) s = Inr (v, r)" for s v r
  proof (cases s)
    case Nil
    then show ?thesis using a by (simp add: raise_def)
  next
    case (Cons c s')
    show ?thesis using scan_once_Suc_value [OF a [unfolded Cons]]
      by (auto dest: IH2 IH3 scan_number_value)
  qed
  have B: "wf_json v" if a: "parse_array (Suc n) acc s = Inr (v, r)" "wf_json_list acc" for acc s v r
  proof -
    obtain v1 r1 where "scan_once n s = Inr (v1, r1)"
      and c: "v = JArr (acc @ [v1]) \<or> (\<exists>s'. parse_array n (acc @ [v1]) s' = Inr (v, r))"
      using parse_array_Suc_value [OF a(1)] by blast
    then have "wf_json_list (acc @ [v1])" using a(2) IH1 by (auto simp: wf_json_list_iff)
    with c show ?thesis by (auto dest: IH2)
  qed
  have C: "wf_json v" if a: "parse_object (Suc n) acc s = Inr (v, r)" "wf_json_items acc" for acc s v r
  proof -
    obtain k v1 s1 r1 where "scan_once n s1 = Inr (v1, r1)"
      and c: "v = JObj (dict_updates (acc @ [(k, v1)]) []) \<or> (\<exists>s'. parse_object n (acc @ [(k, v1)]) s' = Inr (v, r))"
      using parse_object_Suc_value [OF a(1)] by blast
    then have w: "\<forall>(k', v') \<in> set (acc @ [(k, v1)]). wf_json v'"
      using a(2) IH1 by (auto simp: wf_json_items_iff)
    show ?thesis
    proof (cases "v = JObj (dict_updates (acc @ [(k, v1)]) [])")
      case True
      then show ?thesis using dict_updates_wf [of "[]" "acc @ [(k, v1)]"] w by (simp add: wf_json_items_iff)
    next
      case False
      then show ?thesis using c w by (auto simp: wf_json_items_iff dest: IH3)
    qed
  qed
  show ?case using A B C by blast
qed

lemma json_loads_wf: "json_loads s = Inr v \<Longrightarrow> wf_json v"
  by (auto simp: json_loads_def res_bind_eq_Inr raise_def split: if_splits
      dest: scan_once_wf_all [THEN conjunct1, rule_format])

section \<open>Properties\<close>

text \<open>
  C6: \<open>json.dumps(v, indent=4)\<close> followed by \<open>json.loads\<close> gives \<open>v\<close> back for every value
  without floats, with distinct keys in each object and integers of at most 4300 digits;
  for such a value \<open>json.dumps\<close> does not raise.
\<close>

theorem json_dumps_loads: "wf_json v \<Longrightarrow> \<exists>t. json_dumps v = Inr t \<and> json_loads t = Inr v"
proof -
  assume wf: "wf_json v"
  obtain t where enc: "iterencode py_dump_cfg 0 v = (t, None)"
    using iterencode_py_None [OF wf_json_ints(1) [OF wf]] by blast
  have "json_loads t = Inr v" by (rule json_loads_iterencode [OF valid_py_dump_cfg enc wf])
  with enc show ?thesis by (simp add: json_dumps_def)
qed

text \<open>
  C23: \<open>json.dumps\<close> raises \<open>ValueError\<close> exactly when the value holds an integer of more
  than 4300 decimal digits (Python 3.11's limit on integer-to-string conversion), and
  otherwise returns text.
\<close>

theorem json_dumps_digit_limit:
  "json_dumps v = raise ValueError \<longleftrightarrow> \<not> list_all py_int_repr_ok (json_ints v)"
proof -
  have "snd (iterencode py_dump_cfg 0 v) =
      (if list_all py_int_repr_ok (json_ints v) then None else Some ValueError)"
    using iterencode_exc(1) [of py_dump_cfg 0 v] by (simp add: py_dump_cfg_def)
  then show ?thesis
    by (cases "iterencode py_dump_cfg 0 v") (auto simp: json_dumps_def raise_def split: option.splits)
qed

text \<open>
  C22: whatever \<open>json.loads\<close> returns, \<open>json.dumps\<close> writes without raising, and
  loading that text again gives the same value back (a repeated key in the input keeps
  its last value, which the second load reproduces).
\<close>

theorem json_loads_dumps_loads:
  "json_loads s = Inr v \<Longrightarrow> \<exists>t. json_dumps v = Inr t \<and> json_loads t = Inr v"
proof -
  assume "json_loads s = Inr v"
  then have wf: "wf_json v" by (rule json_loads_wf)
  obtain t where enc: "iterencode py_dump_cfg 0 v = (t, None)"
    using iterencode_py_None [OF wf_json_ints(1) [OF wf]] by blast
  have "json_loads t = Inr v" by (rule json_loads_iterencode [OF valid_py_dump_cfg enc wf])
  with enc show ?thesis by (simp add: json_dumps_def)
qed

section \<open>Witnesses\<close>

theorem json_dumps_loads_witness:
  "\<exists>t. json_dumps (JObj [(''a'', JArr [JInt 1, JStr ''x/y'']), (''b'', JNull)]) = Inr t \<and>
       json_loads t = Inr (JObj [(''a'', JArr [JInt 1, JStr ''x/y'']), (''b'', JNull)])"
  by (rule json_dumps_loads) (simp add: py_int_repr_ok_int64)

theorem json_loads_dumps_witness:
  "\<exists>t. json_dumps (JArr [JInt 1, JObj [(''a'', JInt 3)]]) = Inr t \<and>
       json_loads t = Inr (JArr [JInt 1, JObj [(''a'', JInt 3)]])"
proof -
  have \<open>json_loads ''[1, {"a": 2, "a": 3}]'' = Inr (JArr [JInt 1, JObj [(''a'', JInt 3)]])\<close>
    by (simp add: json_text_simps)
  then show ?thesis by (rule json_loads_dumps_loads)
qed

end
