(* ===== verification/RecordSource.thy ===== *)
theory RecordSource
  imports JsonText
begin

text \<open>
  \<open>get_data\<close> (\<open>task.py\<close> lines 21-47), the record source. The HTTP response is an input:
  either the request raises (\<open>Unreachable\<close>: \<open>requests.get\<close> raises
  \<open>ConnectionError\<close>, which nothing catches) or it has a status code and the body's
  lines as \<open>iter_lines\<close> yields them, each as its decoded text. On status 200 every
  non-empty line is decoded by \<open>json.loads\<close> (\<open>json_loads\<close>) in order and appended to
  \<open>json_objects\<close>; an empty line (a keep-alive) is skipped. The \<open>except\<close> clause catches
  \<open>json.JSONDecodeError\<close> only: that error ends the run with \<open>exit(-1)\<close>, any other
  exception of \<open>json.loads\<close> (the \<open>ValueError\<close> of an integer literal beyond 4300 digits)
  propagates. Any other status prints a message and returns \<open>None\<close>: the function does
  not stop the run.
\<close>

datatype response = Unreachable | Response int "string list"

fun decode_lines :: "string list \<Rightarrow> json list \<Rightarrow> json list res" where
  "decode_lines [] json_objects = Inr json_objects"
| "decode_lines (line # lines) json_objects =
     (if line = [] then decode_lines lines json_objects
      else (case json_loads line of
              Inr json_object \<Rightarrow> decode_lines lines (json_objects @ [json_object])
            | Inl e \<Rightarrow> if e = Raised JSONDecodeError then Inl DecodeExit else Inl e))"

definition get_data :: "response \<Rightarrow> json list option res" where
  "get_data response =
     (case response of
        Unreachable \<Rightarrow> raise ConnectionError
      | Response status_code lines \<Rightarrow>
          (if status_code = 200 then res_bind (decode_lines lines []) (\<lambda>js. Inr (Some js))
           else Inr None))"

text \<open>What stops the decoding loop: \<open>exit(-1)\<close> for a decoding error, else the exception.\<close>

definition decode_failure :: "failure \<Rightarrow> failure" where
  "decode_failure e = (if e = Raised JSONDecodeError then DecodeExit else e)"

declare get_data_def [pipeline_simps]

section \<open>Lemmas\<close>

lemma decode_lines_Inr_iff:
  "decode_lines ls acc = Inr js \<longleftrightarrow>
     (\<exists>ds. js = acc @ ds \<and> list_all2 (\<lambda>l j. json_loads l = Inr j) (filter (\<lambda>l. l \<noteq> []) ls) ds)"
proof (induction ls arbitrary: acc)
  case Nil
  then show ?case by auto
next
  case (Cons l ls)
  show ?case
  proof (cases "l = []")
    case True
    with Cons.IH show ?thesis by simp
  next
    case False
    show ?thesis
    proof (cases "json_loads l")
      case (Inl e)
      with False show ?thesis by (auto simp: list_all2_Cons1)
    next
      case (Inr j)
      with False Cons.IH [of "acc @ [j]"] show ?thesis
        by (auto simp: list_all2_Cons1)
    qed
  qed
qed

lemma decode_lines_filter: "decode_lines (filter (\<lambda>l. l \<noteq> []) ls) acc = decode_lines ls acc"
  by (induction ls arbitrary: acc) (auto split: sum.splits)

lemma decode_lines_decoded_prefix:
  "list_all (\<lambda>p. p = [] \<or> (\<exists>j. json_loads p = Inr j)) pre \<Longrightarrow>
   \<exists>acc'. decode_lines (pre @ rest) acc = decode_lines rest acc'"
proof (induction pre arbitrary: acc)
  case Nil
  then show ?case by auto
next
  case (Cons p pre)
  then show ?case by (cases "p = []") (auto split: sum.splits)
qed

lemma decode_lines_Inl:
  "decode_lines ls acc = Inl e \<Longrightarrow>
   \<exists>pre l post e'. ls = pre @ l # post \<and> list_all (\<lambda>p. p = [] \<or> (\<exists>j. json_loads p = Inr j)) pre \<and>
      l \<noteq> [] \<and> json_loads l = Inl e' \<and> e = decode_failure e'"
proof (induction ls arbitrary: acc)
  case Nil
  then show ?case by simp
next
  case (Cons l ls)
  show ?case
  proof (cases "l = [] \<or> (\<exists>j. json_loads l = Inr j)")
    case True
    then obtain acc' where "decode_lines ls acc' = Inl e"
      using Cons.prems by (cases "l = []") (auto split: sum.splits)
    then obtain pre l' post e' where "ls = pre @ l' # post"
      "list_all (\<lambda>p. p = [] \<or> (\<exists>j. json_loads p = Inr j)) pre" "l' \<noteq> []" "json_loads l' = Inl e'"
      "e = decode_failure e'" using Cons.IH by blast
    with True show ?thesis by (intro exI [of _ "l # pre"]) auto
  next
    case False
    then obtain e' where "l \<noteq> []" "json_loads l = Inl e'" by (cases "json_loads l") auto
    moreover have "e = decode_failure e'"
      using Cons.prems calculation by (simp add: decode_failure_def split: if_splits)
    ultimately show ?thesis
      by (intro exI [of _ "[]"] exI [of _ l] exI [of _ ls] exI [of _ e']) simp
  qed
qed

lemma get_data_stops_at:
  assumes "list_all (\<lambda>p. p = [] \<or> (\<exists>j. json_loads p = Inr j)) pre"
    and "l \<noteq> []" and "json_loads l = Inl e"
  shows "get_data (Response 200 (pre @ l # post)) = Inl (decode_failure e)"
proof -
  obtain acc' where "decode_lines (pre @ l # post) [] = decode_lines (l # post) acc'"
    using decode_lines_decoded_prefix [OF assms(1)] by blast
  then show ?thesis using assms(2,3) by (simp add: get_data_def decode_failure_def)
qed

section \<open>Properties\<close>

text \<open>
  C20: on status 200, \<open>get_data\<close> returns the decoded values of exactly the non-empty
  lines, in order, when \<open>json.loads\<close> decodes every one of them.
\<close>

theorem get_data_success:
  "get_data (Response 200 ls) = Inr (Some js) \<longleftrightarrow>
     list_all2 (\<lambda>l j. json_loads l = Inr j) (filter (\<lambda>l. l \<noteq> []) ls) js"
  by (auto simp: get_data_def res_bind_eq_Inr decode_lines_Inr_iff)

text \<open>
  C7: on status 200, decoding is fail-fast: when the non-empty lines before \<open>l\<close> decode and
  \<open>l\<close> does not, the run stops at \<open>l\<close>, with \<open>exit(-1)\<close> for a \<open>JSONDecodeError\<close> and with
  the exception itself for any other error, and no list of records is returned.
\<close>

theorem get_data_first_failure:
  assumes "list_all (\<lambda>p. p = [] \<or> (\<exists>j. json_loads p = Inr j)) pre"
    and "l \<noteq> []" and "json_loads l = Inl e"
  shows "get_data (Response 200 (pre @ l # post)) = Inl (decode_failure e)"
  using assms by (rule get_data_stops_at)

text \<open>
  every failure of \<open>get_data\<close> on status 200 comes from one line: there is a first
  non-empty line that \<open>json.loads\<close> does not decode, and the failure is \<open>exit(-1)\<close> if its
  error is a \<open>JSONDecodeError\<close> and that error otherwise.
\<close>

theorem get_data_failure_source:
  "get_data (Response 200 ls) = Inl e \<Longrightarrow>
   \<exists>pre l post e'. ls = pre @ l # post \<and> list_all (\<lambda>p. p = [] \<or> (\<exists>j. json_loads p = Inr j)) pre \<and>
      l \<noteq> [] \<and> json_loads l = Inl e' \<and> e = decode_failure e'"
  by (rule decode_lines_Inl) (auto simp: get_data_def res_bind_eq_Inl)

text \<open>
  C21: a feed line holding an integer literal of more than 4300 digits is not answered by
  \<open>exit(-1)\<close>: \<open>json.loads\<close> raises a \<open>ValueError\<close> that the \<open>except
  json.JSONDecodeError\<close> clause does not catch, and \<open>get_data\<close> raises it.
\<close>

theorem get_data_digit_limit:
  assumes "list_all (\<lambda>p. p = [] \<or> (\<exists>j. json_loads p = Inr j)) pre"
    and "is_digit c" and "c \<noteq> CHR ''0''" and "list_all is_digit ds"
    and "int_max_str_digits < length (c # ds)"
  shows "get_data (Response 200 (pre @ (c # ds) # post)) = raise ValueError"
proof -
  have "json_loads (c # ds) = Inl (Raised ValueError)"
    using json_loads_long_int [OF assms(2-4)] assms(5) by (simp add: raise_def)
  from get_data_stops_at [OF assms(1) _ this] show ?thesis
    by (simp add: decode_failure_def raise_def)
qed

section \<open>Witnesses\<close>

theorem get_data_first_failure_witness:
  "get_data (Response 200 [''{}'', '''', ''x'', ''[]'']) = Inl DecodeExit"
proof -
  have "json_loads ''{}'' = Inr (JObj [])" "json_loads ''x'' = raise JSONDecodeError"
    by (simp_all add: json_text_simps raise_def)
  then have "get_data (Response 200 ([''{}'', ''''] @ ''x'' # [''[]''])) = Inl (decode_failure (Raised JSONDecodeError))"
    by (intro get_data_first_failure) (auto simp: raise_def)
  then show ?thesis by (simp add: decode_failure_def)
qed

theorem get_data_failure_source_witness:
  "\<exists>pre l post e'. [''[1]'', ''{'', ''2''] = pre @ l # post \<and>
     list_all (\<lambda>p. p = [] \<or> (\<exists>j. json_loads p = Inr j)) pre \<and>
     l \<noteq> [] \<and> json_loads l = Inl e' \<and> DecodeExit = decode_failure e'"
proof -
  have "json_loads ''[1]'' = Inr (JArr [JInt 1])" "json_loads ''{'' = raise JSONDecodeError"
    by (simp_all add: json_text_simps raise_def)
  then have "get_data (Response 200 [''[1]'', ''{'', ''2'']) = Inl DecodeExit"
    by (simp add: get_data_def raise_def)
  then show ?thesis by (rule get_data_failure_source)
qed

theorem get_data_digit_limit_witness:
  "get_data (Response 200 [''[]'', replicate 4301 (CHR ''1'')]) = raise ValueError"
proof -
  have "json_loads ''[]'' = Inr (JArr [])" by (simp add: json_text_simps)
  then have "get_data (Response 200 ([''[]''] @ (CHR ''1'' # replicate 4300 (CHR ''1'')) # [])) = raise ValueError"
    by (intro get_data_digit_limit) (auto simp: is_digit_def int_max_str_digits_def list_all_iff)
  then show ?thesis by (simp add: replicate_Suc [symmetric] del: replicate_Suc)
qed

end
