(* ===== verification/Persistence.thy ===== *)
theory Persistence
  imports JsonText Aggregator
begin

text \<open>
  The persistence adapter of \<open>task.py\<close>: \<open>save_json\<close> (lines 50-57), \<open>load_json\<close>
  (lines 60-67) and \<open>save_dataframe_to_json\<close> (lines 166-171). The world they act on is a
  store of files (a map from path to text) and the text written to standard output.
  Opening a file for writing always succeeds in the model; a missing file is
  \<open>FileNotFoundError\<close> on reading. An operation returns its outcome together with the world
  after it: a failing \<open>json.dump\<close> leaves behind what it wrote before raising.
\<close>

record world =
  files :: "string \<rightharpoonup> string"
  stdout :: string

type_synonym 'a io = "'a res \<times> world"

text \<open>\<open>print(s)\<close> writes \<open>s\<close> and a newline; \<open>open(f, 'w')\<close> and the writes to it leave \<open>t\<close>
  as the file's content.\<close>

definition print_line :: "string \<Rightarrow> world \<Rightarrow> world" where
  "print_line s w = w\<lparr>stdout := stdout w @ s @ [CHR 0x0A]\<rparr>"

definition write_file :: "string \<Rightarrow> string \<Rightarrow> world \<Rightarrow> world" where
  "write_file f t w = w\<lparr>files := (files w)(f \<mapsto> t)\<rparr>"

text \<open>
  \<open>save_json\<close>: \<open>open(json_file, 'w')\<close> truncates the file, \<open>json.dump(json_data, file,
  indent=4)\<close> writes the chunks of the pure-Python encoder one by one, and the \<open>with\<close>
  block closes the file also when \<open>json.dump\<close> raises, so the chunks written before the
  exception stay in the file; the message is printed only after a complete dump.
\<close>

definition save_json :: "json \<Rightarrow> string \<Rightarrow> world \<Rightarrow> unit io" where
  "save_json json_data json_file w =
     (case iterencode py_dump_cfg 0 json_data of
        (t, None) \<Rightarrow> (Inr (), print_line (''Data saved to '' @ json_file) (write_file json_file t w))
      | (t, Some e) \<Rightarrow> (raise e, write_file json_file t w))"

text \<open>\<open>load_json\<close>: \<open>open(json_file, 'r')\<close> raises \<open>FileNotFoundError\<close> for a missing file;
  \<open>json.load(file)\<close> is \<open>json.loads(file.read())\<close>.\<close>

definition load_json :: "string \<Rightarrow> world \<Rightarrow> json res" where
  "load_json json_file w =
     (case files w json_file of
        None \<Rightarrow> raise FileNotFoundError
      | Some t \<Rightarrow> json_loads t)"

text \<open>
  The one-row results DataFrame in \<open>orient='records'\<close> form: a list holding one object
  whose items are the eight columns in the order \<open>process_json\<close> builds them (lines
  110-121). The per-city columns hold dicts from city to integer; a missing name (NaN)
  is written as \<open>null\<close>.
\<close>

definition city_dict :: "(string \<times> int) list \<Rightarrow> json" where
  "city_dict m = JObj (map (\<lambda>(city, v). (city, JInt v)) m)"

definition name_cell :: "string option \<Rightarrow> json" where
  "name_cell n = (case n of Some s \<Rightarrow> JStr s | None \<Rightarrow> JNull)"

definition records_json :: "result \<Rightarrow> json" where
  "records_json r =
     JArr [JObj [(''average_age_per_city'', city_dict (average_age_per_city r)),
                 (''average_friends_per_city'', city_dict (average_friends_per_city r)),
                 (''person_with_most_friends'', name_cell (person_with_most_friends r)),
                 (''most_friends_count'', JInt (most_friends_count r)),
                 (''most_common_name_count'', JInt (int (most_common_name_count r))),
                 (''most_common_name_all_cities'', name_cell (most_common_name_all_cities r)),
                 (''most_common_hobby'', JStr (most_common_hobby r)),
                 (''most_common_hobby_count'', JInt (int (most_common_hobby_count r)))]]"

text \<open>
  \<open>save_dataframe_to_json(df, output_file)\<close>: the body calls \<open>to_json\<close> on the module
  global \<open>results_df\<close>, not on its parameter \<open>df\<close>. pandas' encoder (a library the
  script only calls) is the parameter \<open>to_json\<close>; \<open>DataFrame.to_json\<close> encodes the whole
  frame before it opens the file, so a failing encoder writes nothing.
\<close>

definition save_dataframe_to_json ::
  "(json \<Rightarrow> string res) \<Rightarrow> result \<Rightarrow> result \<Rightarrow> string \<Rightarrow> world \<Rightarrow> unit io" where
  "save_dataframe_to_json to_json results_df df output_file w =
     (case to_json (records_json results_df) of
        Inl e \<Rightarrow> (Inl e, w)
      | Inr s \<Rightarrow> (Inr (), print_line (''Results saved to '' @ output_file) (write_file output_file s w)))"

section \<open>Lemmas\<close>

lemma files_print_line [simp]: "files (print_line s w) = files w"
  by (simp add: print_line_def)

lemma stdout_write_file [simp]: "stdout (write_file f t w) = stdout w"
  by (simp add: write_file_def)

lemma files_write_file [simp]: "files (write_file f t w) = (files w)(f \<mapsto> t)"
  by (simp add: write_file_def)

lemma stdout_print_line [simp]: "stdout (print_line s w) = stdout w @ s @ [CHR 0x0A]"
  by (simp add: print_line_def)

lemma save_json_files:
  "files (snd (save_json v f w)) = (files w)(f \<mapsto> fst (iterencode py_dump_cfg 0 v))"
  by (simp add: save_json_def split: prod.splits option.splits)

lemma save_json_ok:
  assumes "iterencode py_dump_cfg 0 v = (t, None)"
  shows "save_json v f w = (Inr (), print_line (''Data saved to '' @ f) (write_file f t w))"
  using assms by (simp add: save_json_def)

lemma save_json_exc:
  assumes "iterencode py_dump_cfg 0 v = (t, Some e)"
  shows "save_json v f w = (raise e, write_file f t w)"
  using assms by (simp add: save_json_def)

lemma scalar_start:
  assumes "\<not> is_container v" and "wf_json v" and "scalar_text c v = Some t"
  shows "\<exists>d t'. t = d # t' \<and> value_start d"
  using iterencode_start [of c 0 v t] assms by (simp add: iterencode_scalar chunk_def emit_def)

text \<open>An unclosed list holding one scalar is not JSON.\<close>

lemma json_loads_unclosed:
  assumes "\<not> is_container v" and "wf_json v" and "scalar_text c v = Some t"
  shows "json_loads (CHR ''['' # newline_indent 1 @ t) = raise JSONDecodeError"
proof -
  obtain d t' where dt: "t = d # t'" "value_start d" using scalar_start [OF assms] by blast
  have ws: "d \<notin> set ws_chars" "d \<noteq> CHR '']''" using dt(2) by (auto simp: value_start_def)
  have sk: "skip_ws (newline_indent 1 @ t) = t" using ws(1) dt(1) by (simp add: skip_ws_indent_Cons)
  have "value_end []" by (simp add: value_end_def)
  then have sc: "scan_once (Suc m) (t @ []) = Inr (v, [])" for m
    by (rule scan_once_scalar [OF assms])
  define m where "m = 2 * length (newline_indent 1 @ t)"
  have m: "2 * length (CHR ''['' # newline_indent 1 @ t) + 1 = Suc (Suc (Suc m))"
    by (simp add: m_def)
  have so: "scan_once (Suc (Suc (Suc m))) (CHR ''['' # newline_indent 1 @ t) = raise JSONDecodeError"
    using sk ws(2) sc [of m] dt(1) by (simp add: skip_ws_def)
  have sw: "skip_ws (CHR ''['' # newline_indent 1 @ t) = CHR ''['' # newline_indent 1 @ t"
    by (simp add: skip_ws_Cons_nonws ws_chars_def)
  show ?thesis unfolding json_loads_def m sw so by simp
qed

section \<open>Properties\<close>

text \<open>
  C8: \<open>save_json\<close> followed by \<open>load_json\<close> on the same file gives back every well-formed
  JSON value (no floats, distinct keys, integers within the 4300-digit limit); the save
  succeeds and prints one line, "Data saved to" and the file name.
\<close>

theorem save_load_roundtrip:
  assumes "wf_json v"
  shows "\<exists>w'. save_json v f w = (Inr (), w') \<and> load_json f w' = Inr v \<and>
           stdout w' = stdout w @ ''Data saved to '' @ f @ [CHR 0x0A]"
proof -
  obtain t where enc: "iterencode py_dump_cfg 0 v = (t, None)"
    using iterencode_py_None [OF wf_json_ints(1) [OF assms]] by blast
  have "json_loads t = Inr v" by (rule json_loads_iterencode [OF valid_py_dump_cfg enc assms])
  then show ?thesis by (simp add: save_json_ok [OF enc] load_json_def)
qed

text \<open>
  C25: \<open>save_json\<close> opens its file in mode \<open>'w'\<close>: whatever its outcome, the file
  afterwards holds exactly the text the encoder produced (the old content is gone, not
  appended to), no other file changes, and standard output gains the confirmation line
  on success and nothing on failure.
\<close>

theorem save_json_overwrites:
  assumes "save_json v f w = (x, w')"
  shows "files w' = (files w)(f \<mapsto> fst (iterencode py_dump_cfg 0 v)) \<and>
         stdout w' = stdout w @ (if x = Inr () then ''Data saved to '' @ f @ [CHR 0x0A] else [])"
  using assms by (auto simp: save_json_def write_file_def print_line_def raise_def
      split: prod.splits option.splits)

text \<open>
  C24: a \<open>json.dump\<close> that raises part-way through leaves a truncated file: for a list
  whose first item is a scalar and whose second is an integer beyond the 4300-digit
  limit, \<open>save_json\<close> raises \<open>ValueError\<close>, prints nothing, and the file holds the
  opening bracket and the first item, which \<open>load_json\<close> then rejects.
\<close>

theorem save_json_partial_write:
  assumes "\<not> is_container v" and "wf_json v" and "scalar_text py_dump_cfg v = Some t"
    and "\<not> py_int_repr_ok i"
  shows "save_json (JArr (v # JInt i # vs)) f w =
           (raise ValueError, write_file f (CHR ''['' # newline_indent 1 @ t) w) \<and>
         load_json f (write_file f (CHR ''['' # newline_indent 1 @ t) w) = raise JSONDecodeError"
proof
  have "iterencode py_dump_cfg 0 (JArr (v # JInt i # vs)) =
      (CHR ''['' # newline_indent 1 @ t, Some ValueError)"
    using assms(1,3,4) by (simp add: out_seq_def emit_def chunk_def py_dump_cfg_def)
  then show "save_json (JArr (v # JInt i # vs)) f w =
      (raise ValueError, write_file f (CHR ''['' # newline_indent 1 @ t) w)"
    by (rule save_json_exc)
  show "load_json f (write_file f (CHR ''['' # newline_indent 1 @ t) w) = raise JSONDecodeError"
    using json_loads_unclosed [OF assms(1-3)] by (simp add: load_json_def)
qed

section \<open>Witnesses\<close>

theorem save_load_roundtrip_witness:
  "\<exists>w'. save_json (JObj [(''k'', JArr [JInt 7, JStr ''a/b''])]) ''out.json''
            \<lparr>files = Map.empty, stdout = []\<rparr> = (Inr (), w') \<and>
        load_json ''out.json'' w' = Inr (JObj [(''k'', JArr [JInt 7, JStr ''a/b''])]) \<and>
        stdout w' = stdout \<lparr>files = Map.empty, stdout = []\<rparr> @ ''Data saved to '' @ ''out.json'' @ [CHR 0x0A]"
  by (rule save_load_roundtrip) (simp add: py_int_repr_ok_int64)

theorem save_json_overwrites_witness:
  "files (snd (save_json (JInt 3) ''a.json'' \<lparr>files = [''a.json'' \<mapsto> ''old''], stdout = []\<rparr>)) ''a.json'' =
     Some ''3''"
proof -
  have "files (snd (save_json (JInt 3) ''a.json'' \<lparr>files = [''a.json'' \<mapsto> ''old''], stdout = []\<rparr>)) =
      (files \<lparr>files = [''a.json'' \<mapsto> ''old''], stdout = []\<rparr>)(''a.json'' \<mapsto> fst (iterencode py_dump_cfg 0 (JInt 3))) \<and>
    stdout (snd (save_json (JInt 3) ''a.json'' \<lparr>files = [''a.json'' \<mapsto> ''old''], stdout = []\<rparr>)) =
      stdout \<lparr>files = [''a.json'' \<mapsto> ''old''], stdout = []\<rparr> @
      (if fst (save_json (JInt 3) ''a.json'' \<lparr>files = [''a.json'' \<mapsto> ''old''], stdout = []\<rparr>) = Inr ()
       then ''Data saved to '' @ ''a.json'' @ [CHR 0x0A] else [])"
    by (rule save_json_overwrites) simp
  moreover have "scalar_text py_dump_cfg (JInt 3) = Some ''3''"
    by (simp add: py_dump_cfg_def py_int_repr_ok_int64 str_int_def digits_of_nat.simps digit_char_def)
  ultimately show ?thesis by (simp add: chunk_def emit_def)
qed

theorem save_json_partial_write_witness:
  "save_json (JArr [JInt 1, JInt (10 ^ int_max_str_digits)]) ''out.json'' \<lparr>files = Map.empty, stdout = []\<rparr> =
     (raise ValueError, write_file ''out.json'' (CHR ''['' # newline_indent 1 @ ''1'') \<lparr>files = Map.empty, stdout = []\<rparr>) \<and>
   load_json ''out.json'' (write_file ''out.json'' (CHR ''['' # newline_indent 1 @ ''1'') \<lparr>files = Map.empty, stdout = []\<rparr>) =
     raise JSONDecodeError"
proof -
  have "\<not> py_int_repr_ok (10 ^ int_max_str_digits)" by (simp add: py_int_repr_ok_def)
  moreover have "scalar_text py_dump_cfg (JInt 1) = Some ''1''"
    by (simp add: py_dump_cfg_def py_int_repr_ok_int64 str_int_def digits_of_nat.simps digit_char_def)
  ultimately show ?thesis
    by (intro save_json_partial_write) (simp_all add: py_int_repr_ok_int64)
qed

end
