(* ===== verification/Presentation.thy ===== *)
theory Presentation
  imports Persistence
begin

text \<open>
  \<open>print_results\<close> (\<open>task.py\<close> lines 145-163): the report printed from the one-row results
  DataFrame. Each \<open>print\<close> appends its text and a newline to standard output. The
  dicts of the per-city columns are iterated in their order (the sorted city order of
  \<open>groupby\<close>); integers print as \<open>str\<close> does; a missing name is the float NaN and prints
  as \<open>nan\<close>.
\<close>

definition py_str_name :: "string option \<Rightarrow> string" where
  "py_str_name n = (case n of Some s \<Rightarrow> s | None \<Rightarrow> ''nan'')"

definition city_lines :: "(string \<times> int) list \<Rightarrow> string list" where
  "city_lines m = map (\<lambda>(city, v). city @ '': '' @ str_int v) m"

definition print_city_lines :: "(string \<times> int) list \<Rightarrow> world \<Rightarrow> world" where
  "print_city_lines m w = fold (\<lambda>(city, v). print_line (city @ '': '' @ str_int v)) m w"

definition print_results :: "result \<Rightarrow> world \<Rightarrow> world" where
  "print_results df w =
     (let w = print_line ''The average age per city:'' w;
          w = print_city_lines (average_age_per_city df) w;
          w = print_line [] w;
          w = print_line ''Average number of friends per city:'' w;
          w = print_city_lines (average_friends_per_city df) w;
          w = print_line [] w;
          w = print_line (''Person with the most friends: '' @ py_str_name (person_with_most_friends df) @
                '' (with '' @ str_int (most_friends_count df) @ '' friends)'') w;
          w = print_line [] w;
          w = print_line ''Most common name for all cities:'' w;
          w = print_line (py_str_name (most_common_name_all_cities df) @
                '' ('' @ str_int (int (most_common_name_count df)) @ '')'') w;
          w = print_line [] w
      in print_line (''Most common hobby among all friends of all people:  '' @ most_common_hobby df @
           '' ('' @ str_int (int (most_common_hobby_count df)) @ '')'') w)"

text \<open>The part of the report after the two per-city sections, as text.\<close>

definition report_tail :: "result \<Rightarrow> string" where
  "report_tail df =
     concat (map (\<lambda>l. l @ [CHR 0x0A])
       [''Person with the most friends: '' @ py_str_name (person_with_most_friends df) @
          '' (with '' @ str_int (most_friends_count df) @ '' friends)'', [],
        ''Most common name for all cities:'',
        py_str_name (most_common_name_all_cities df) @ '' ('' @ str_int (int (most_common_name_count df)) @ '')'', [],
        ''Most common hobby among all friends of all people:  '' @ most_common_hobby df @
          '' ('' @ str_int (int (most_common_hobby_count df)) @ '')''])"

text \<open>The result of the spec's scenario, with names (see \<open>Aggregator\<close>).\<close>

definition spec_result :: result where
  "spec_result =
     \<lparr>average_age_per_city = [(''X'', 15), (''Y'', 30)], average_friends_per_city = [(''X'', 0), (''Y'', 1)],
      person_with_most_friends = Some ''A'', most_friends_count = 1, most_common_name_count = 1,
      most_common_name_all_cities = Some ''A'', most_common_hobby = ''chess'', most_common_hobby_count = 2\<rparr>"

section \<open>Reading the report back\<close>

text \<open>
  A reader of the printed report, to state what it determines: the text split at
  newlines (\<open>str.splitlines\<close> on text that ends with a newline), a city line split at its
  last space, and the two per-city sections between their headers and the empty line
  after them.
\<close>

abbreviation nl :: char where "nl \<equiv> CHR 0x0A"

function split_lines :: "string \<Rightarrow> string list" where
  "split_lines [] = []"
| "split_lines (c # s) =
     takeWhile (\<lambda>x. x \<noteq> nl) (c # s) # split_lines (drop 1 (dropWhile (\<lambda>x. x \<noteq> nl) (c # s)))"
  by pat_completeness auto
termination
  by (relation "measure length") (auto intro: le_imp_less_Suc order.trans [OF diff_le_self length_dropWhile_le])

definition int_of_str :: "string \<Rightarrow> int" where
  "int_of_str s =
     (case s of c # ds \<Rightarrow> if c = CHR ''-'' then - int (nat_of_digits ds) else int (nat_of_digits s)
      | [] \<Rightarrow> 0)"

definition parse_city_line :: "string \<Rightarrow> (string \<times> int) option" where
  "parse_city_line l =
     (let vs = rev (takeWhile (\<lambda>c. c \<noteq> CHR '' '') (rev l));
          pre = take (length l - length vs) l
      in if vs \<noteq> [] \<and> drop (length pre - 2) pre = '': '' then Some (take (length pre - 2) pre, int_of_str vs)
         else None)"

fun read_section :: "string list \<Rightarrow> ((string \<times> int) list \<times> string list) option" where
  "read_section [] = None"
| "read_section (l # ls) =
     (if l = [] then Some ([], ls)
      else case parse_city_line l of
             None \<Rightarrow> None
           | Some p \<Rightarrow> map_option (\<lambda>(m, r). (p # m, r)) (read_section ls))"

definition read_report :: "string \<Rightarrow> ((string \<times> int) list \<times> (string \<times> int) list) option" where
  "read_report t =
     (case split_lines t of
        h1 # r1 \<Rightarrow>
          if h1 \<noteq> ''The average age per city:'' then None
          else (case read_section r1 of
                  Some (m1, h2 # r2) \<Rightarrow>
                    if h2 \<noteq> ''Average number of friends per city:'' then None
                    else map_option (\<lambda>(m2, _). (m1, m2)) (read_section r2)
                | _ \<Rightarrow> None)
      | [] \<Rightarrow> None)"

section \<open>Lemmas\<close>

lemma files_print_city_lines [simp]: "files (print_city_lines m w) = files w"
  unfolding print_city_lines_def by (induction m arbitrary: w) auto

lemma files_print_results [simp]: "files (print_results r w) = files w"
  by (simp add: print_results_def)

lemma stdout_print_city_lines:
  "stdout (print_city_lines m w) =
     stdout w @ concat (map (\<lambda>l. l @ [nl]) (city_lines m))"
  unfolding print_city_lines_def city_lines_def by (induction m arbitrary: w) auto

lemma takeWhile_upto: "\<forall>x \<in> set xs. P x \<Longrightarrow> \<not> P y \<Longrightarrow> takeWhile P (xs @ y # ys) = xs"
  by (induction xs) auto

lemma takeWhile_line: "nl \<notin> set l \<Longrightarrow> takeWhile (\<lambda>x. x \<noteq> nl) (l @ nl # X) = l"
  by (induction l) auto

lemma dropWhile_line: "nl \<notin> set l \<Longrightarrow> dropWhile (\<lambda>x. x \<noteq> nl) (l @ nl # X) = nl # X"
  by (induction l) auto

lemma split_lines_line: "nl \<notin> set l \<Longrightarrow> split_lines (l @ nl # X) = l # split_lines X"
  by (cases l) (auto simp: takeWhile_line dropWhile_line)

lemma split_lines_append:
  assumes "\<forall>l \<in> set L. nl \<notin> set l"
  shows "split_lines (concat (map (\<lambda>l. l @ [nl]) L) @ rest) = L @ split_lines rest"
  using assms
proof (induction L)
  case Nil
  then show ?case by simp
next
  case (Cons l L)
  then show ?case by (simp add: split_lines_line)
qed

lemma str_int_chars: "c \<in> set (str_int v) \<Longrightarrow> c = CHR ''-'' \<or> is_digit c"
  by (auto simp: str_int_def dest: digits_of_nat_is_digit split: if_splits)

lemma str_int_no_space: "CHR '' '' \<notin> set (str_int v)"
  using str_int_chars [of "CHR '' ''" v] by (auto simp: is_digit_def less_eq_char_def)

lemma str_int_no_nl: "nl \<notin> set (str_int v)"
  using str_int_chars [of nl v] by (auto simp: is_digit_def less_eq_char_def)

lemma int_of_str_str_int [simp]: "int_of_str (str_int v) = v"
proof -
  obtain d ds where d: "digits_of_nat (nat v) = d # ds" by (cases "digits_of_nat (nat v)") auto
  have "is_digit d" using digits_of_nat_is_digit [of d "nat v"] d by simp
  then have "d \<noteq> CHR ''-''" by (auto simp: is_digit_def)
  moreover have "nat_of_digits (d # ds) = nat v" using nat_of_digits_digits_of_nat [of "nat v"] d by simp
  ultimately show ?thesis using d by (auto simp: int_of_str_def str_int_def)
qed

lemma parse_city_line_print: "parse_city_line (city @ '': '' @ str_int v) = Some (city, v)"
proof -
  have "takeWhile (\<lambda>c. c \<noteq> CHR '' '') (rev (str_int v) @ CHR '' '' # rev (city @ '':'')) = rev (str_int v)"
    using str_int_no_space [of v] by (intro takeWhile_upto) auto
  moreover have "str_int v \<noteq> []" by (simp add: str_int_def)
  ultimately show ?thesis by (simp add: parse_city_line_def Let_def)
qed

lemma read_section_print: "read_section (city_lines m @ [] # rest) = Some (m, rest)"
  by (induction m) (auto simp: city_lines_def parse_city_line_print [simplified])

lemma city_lines_no_nl:
  "\<forall>(c, v) \<in> set m. nl \<notin> set c \<Longrightarrow> \<forall>l \<in> set (city_lines m). nl \<notin> set l"
  using str_int_no_nl by (auto simp: city_lines_def)

text \<open>What \<open>print_results\<close> writes: the two per-city sections, then the rest of the report.\<close>

lemma stdout_print_results:
  "stdout (print_results r w) =
     stdout w @ concat (map (\<lambda>l. l @ [nl])
       ((''The average age per city:'' # city_lines (average_age_per_city r) @ [[]]) @
        (''Average number of friends per city:'' # city_lines (average_friends_per_city r) @ [[]]))) @
     report_tail r"
  by (simp add: print_results_def stdout_print_city_lines report_tail_def)

section \<open>Properties\<close>

text \<open>
  C27: the printed report determines both per-city dicts: reading its two per-city
  sections back gives the average ages and the average friend counts of every city, in
  order, whenever no city name contains a newline.
\<close>

theorem print_results_cities_roundtrip:
  assumes "\<forall>(c, v) \<in> set (average_age_per_city r @ average_friends_per_city r). nl \<notin> set c"
  shows "\<exists>T. stdout (print_results r w) = stdout w @ T \<and>
           read_report T = Some (average_age_per_city r, average_friends_per_city r)"
proof -
  let ?L = "(''The average age per city:'' # city_lines (average_age_per_city r) @ [[]]) @
        (''Average number of friends per city:'' # city_lines (average_friends_per_city r) @ [[]])"
  have "\<forall>l \<in> set ?L. nl \<notin> set l"
    using city_lines_no_nl [of "average_age_per_city r"] city_lines_no_nl [of "average_friends_per_city r"] assms
    by auto
  then have "split_lines (concat (map (\<lambda>l. l @ [nl]) ?L) @ report_tail r) = ?L @ split_lines (report_tail r)"
    by (rule split_lines_append)
  then have "read_report (concat (map (\<lambda>l. l @ [nl]) ?L) @ report_tail r) =
      Some (average_age_per_city r, average_friends_per_city r)"
    by (simp add: read_report_def read_section_print)
  then show ?thesis by (simp add: stdout_print_results)
qed

section \<open>Witnesses\<close>

theorem print_results_cities_roundtrip_witness:
  "\<exists>T. stdout (print_results spec_result \<lparr>files = Map.empty, stdout = []\<rparr>) =
        stdout \<lparr>files = Map.empty, stdout = []\<rparr> @ T \<and>
      read_report T = Some (average_age_per_city spec_result, average_friends_per_city spec_result)"
  by (rule print_results_cities_roundtrip) (simp add: spec_result_def)

end
