(* ===== verification/Transport.thy ===== *)
theory Transport
  imports RecordSource
begin

text \<open>
  The line source of \<open>get_data\<close>: \<open>response.iter_lines()\<close> of \<open>requests\<close> (2.32,
  \<open>Response.iter_lines\<close> with the default arguments), which the loop of \<open>task.py\<close> line 34
  runs over. The body arrives from the network in chunks of any size
  (\<open>iter_content\<close>); each chunk, prefixed with the pending tail of the previous one, is
  split by \<open>bytes.splitlines()\<close> (at \<open>\n\<close>, \<open>\r\<close> and \<open>\r\n\<close>), and a last line
  that runs to the end of the chunk is held back as pending.
\<close>

abbreviation lf :: char where "lf \<equiv> CHR 0x0A"

abbreviation cr :: char where "cr \<equiv> CHR 0x0D"

definition is_eol :: "char \<Rightarrow> bool" where
  "is_eol c \<longleftrightarrow> c = lf \<or> c = cr"

text \<open>The line terminator after a line: \<open>\r\n\<close>, \<open>\r\<close> or \<open>\n\<close>.\<close>

definition drop_eol :: "string \<Rightarrow> string" where
  "drop_eol r =
     (case r of
        [] \<Rightarrow> []
      | c # r' \<Rightarrow> if c = cr then (case r' of d # r'' \<Rightarrow> if d = lf then r'' else r' | [] \<Rightarrow> []) else r')"

lemma length_drop_eol: "r \<noteq> [] \<Longrightarrow> length (drop_eol r) < length r"
  by (auto simp: drop_eol_def split: list.splits)

text \<open>\<open>bytes.splitlines()\<close> without \<open>keepends\<close>: no empty last line for a final terminator.\<close>

function splitlines :: "string \<Rightarrow> string list" where
  "splitlines [] = []"
| "splitlines (c # s) =
     takeWhile (\<lambda>x. \<not> is_eol x) (c # s) # splitlines (drop_eol (dropWhile (\<lambda>x. \<not> is_eol x) (c # s)))"
  by pat_completeness auto
termination
proof (relation "measure length")
  fix c s
  show "(drop_eol (dropWhile (\<lambda>x. \<not> is_eol x) (c # s)), c # s) \<in> measure length"
  proof (cases "dropWhile (\<lambda>x. \<not> is_eol x) (c # s) = []")
    case False
    then show ?thesis
      using length_drop_eol [OF False] length_dropWhile_le [of "\<lambda>x. \<not> is_eol x" "c # s"] by simp
  qed (simp add: drop_eol_def)
qed simp

text \<open>\<open>iter_lines\<close>, with its \<open>pending\<close> variable.\<close>

fun iter_lines_from :: "string option \<Rightarrow> string list \<Rightarrow> string list" where
  "iter_lines_from pending [] = (case pending of None \<Rightarrow> [] | Some p \<Rightarrow> [p])"
| "iter_lines_from pending (chunk' # chunks) =
     (let chunk' = (case pending of None \<Rightarrow> chunk' | Some p \<Rightarrow> p @ chunk');
          lines = splitlines chunk'
      in if lines \<noteq> [] \<and> last lines \<noteq> [] \<and> chunk' \<noteq> [] \<and> last (last lines) = last chunk'
         then butlast lines @ iter_lines_from (Some (last lines)) chunks
         else lines @ iter_lines_from None chunks)"

definition iter_lines :: "string list \<Rightarrow> string list" where
  "iter_lines chunks = iter_lines_from None chunks"

text \<open>\<open>requests.get(url, stream=True)\<close> answered with a status and a body in chunks.\<close>

definition stream_response :: "int \<Rightarrow> string list \<Rightarrow> response" where
  "stream_response status_code chunks = Response status_code (iter_lines chunks)"

text \<open>
  A reference for the lines that matter to \<open>get_data\<close>: the body cut at every
  end-of-line character, the empty pieces left out.
\<close>

fun split_all :: "string \<Rightarrow> string list" where
  "split_all [] = [[]]"
| "split_all (c # s) = (if is_eol c then [] # split_all s else (c # hd (split_all s)) # tl (split_all s))"

definition segments :: "string \<Rightarrow> string list" where
  "segments s = filter (\<lambda>l. l \<noteq> []) (split_all s)"

section \<open>Lemmas\<close>

abbreviation not_eol :: "char \<Rightarrow> bool" where "not_eol x \<equiv> \<not> is_eol x"

lemma splitlines_eol_free: "l \<in> set (splitlines s) \<Longrightarrow> \<forall>c \<in> set l. \<not> is_eol c"
proof (induction s arbitrary: l rule: splitlines.induct)
  case 1
  then show ?case by simp
next
  case (2 c s)
  have "l = takeWhile not_eol (c # s) \<or> l \<in> set (splitlines (drop_eol (dropWhile not_eol (c # s))))"
    using "2.prems" unfolding splitlines.simps(2) by (rule set_ConsD)
  then show ?case
  proof
    assume "l = takeWhile not_eol (c # s)"
    then show ?thesis by (blast dest: set_takeWhileD)
  next
    assume "l \<in> set (splitlines (drop_eol (dropWhile not_eol (c # s))))"
    then show ?thesis by (rule "2.IH")
  qed
qed

lemma split_all_not_Nil [simp]: "split_all s \<noteq> []"
  by (induction s) auto

lemma split_all_append:
  "split_all (x @ y) = butlast (split_all x) @ (last (split_all x) @ hd (split_all y)) # tl (split_all y)"
proof (induction x)
  case Nil
  then show ?case by (cases "split_all y") auto
next
  case (Cons c x)
  then show ?case by (cases "split_all x") (auto simp: butlast_append)
qed

lemma last_split_all_eol:
  assumes "x \<noteq> []" and "is_eol (last x)"
  shows "last (split_all x) = []"
proof -
  obtain x' e where x: "x = x' @ [e]" using assms(1) by (cases x rule: rev_cases) auto
  then have "split_all [e] = [[], []]" using assms(2) by simp
  then show ?thesis using x by (simp add: split_all_append)
qed

lemma split_all_eol_free: "\<forall>c \<in> set l. \<not> is_eol c \<Longrightarrow> split_all l = [l]"
  by (induction l) auto

lemma segments_eol_free: "\<forall>c \<in> set l. \<not> is_eol c \<Longrightarrow> segments l = filter (\<lambda>l. l \<noteq> []) [l]"
  by (simp add: segments_def split_all_eol_free)

lemma segments_append:
  assumes "x = [] \<or> is_eol (last x)"
  shows "segments (x @ y) = segments x @ segments y"
proof -
  have l: "last (split_all x) = []" using assms last_split_all_eol [of x] by (cases "x = []") auto
  have "filter (\<lambda>l. l \<noteq> []) (split_all x) =
      filter (\<lambda>l. l \<noteq> []) (butlast (split_all x) @ [last (split_all x)])"
    by (simp only: append_butlast_last_id [OF split_all_not_Nil])
  also have "\<dots> = filter (\<lambda>l. l \<noteq> []) (butlast (split_all x))" using l by simp
  finally have "filter (\<lambda>l. l \<noteq> []) (split_all x) = filter (\<lambda>l. l \<noteq> []) (butlast (split_all x))" .
  moreover have "filter (\<lambda>l. l \<noteq> []) (hd (split_all y) # tl (split_all y)) = segments y"
    by (simp add: segments_def)
  ultimately show ?thesis using l by (simp add: segments_def split_all_append)
qed

lemma segments_lf: "segments (lf # r) = segments r"
  by (simp add: segments_def is_eol_def)

lemma splitlines_segments: "filter (\<lambda>l. l \<noteq> []) (splitlines s) = segments s"
proof (induction s rule: splitlines.induct)
  case 1
  then show ?case by (simp add: segments_def)
next
  case (2 c s)
  define l where "l = takeWhile not_eol (c # s)"
  define r where "r = dropWhile not_eol (c # s)"
  have eq: "c # s = l @ r" by (simp add: l_def r_def)
  have fr: "\<forall>x \<in> set l. \<not> is_eol x" by (auto simp: l_def dest: set_takeWhileD)
  have sp: "splitlines (c # s) = l # splitlines (drop_eol r)" by (simp only: splitlines.simps l_def r_def)
  have IH: "filter (\<lambda>l. l \<noteq> []) (splitlines (drop_eol r)) = segments (drop_eol r)"
    using "2.IH" unfolding r_def .
  show ?case
  proof (cases r)
    case Nil
    have "segments (c # s) = segments l" using eq Nil by simp
    moreover have "filter (\<lambda>l. l \<noteq> []) (splitlines (c # s)) = filter (\<lambda>l. l \<noteq> []) [l]"
      unfolding sp Nil by (simp add: drop_eol_def)
    ultimately show ?thesis using fr by (simp add: segments_eol_free)
  next
    case (Cons e r')
    have e: "is_eol e" using hd_dropWhile [of not_eol "c # s"] Cons by (auto simp: r_def)
    have "segments (c # s) = segments ((l @ [e]) @ r')" using eq Cons by simp
    also have "\<dots> = segments (l @ [e]) @ segments r'" by (rule segments_append) (simp add: e)
    also have "segments (l @ [e]) = filter (\<lambda>l. l \<noteq> []) [l]"
      using e fr by (simp add: segments_def split_all_append split_all_eol_free)
    also have "segments r' = segments (drop_eol r)"
      using Cons e by (auto simp: drop_eol_def is_eol_def segments_lf split: list.splits)
    finally have "segments (c # s) = filter (\<lambda>l. l \<noteq> []) [l] @ segments (drop_eol r)" .
    then show ?thesis unfolding sp using IH by simp
  qed
qed

lemma splitlines_Cons_eq:
  "s \<noteq> [] \<Longrightarrow> splitlines s = takeWhile not_eol s # splitlines (drop_eol (dropWhile not_eol s))"
  by (cases s) simp_all

lemma splitlines_single:
  assumes "t \<noteq> []" and "\<forall>c \<in> set t. \<not> is_eol c"
  shows "splitlines t = [t]"
proof -
  have tw: "takeWhile not_eol t = t" and dw: "dropWhile not_eol t = []" using assms(2) by simp_all
  show ?thesis unfolding splitlines_Cons_eq [OF assms(1)] tw dw by (simp add: drop_eol_def)
qed

lemma drop_eol_append:
  assumes "r \<noteq> []" and "t = [] \<or> hd t \<noteq> lf"
  shows "drop_eol (r @ t) = drop_eol r @ t"
  using assms by (auto simp: drop_eol_def split: list.splits)

lemma drop_eol_suffix: "\<exists>u. r = u @ drop_eol r"
  by (auto simp: drop_eol_def split: list.splits)

lemma splitlines_tail:
  assumes "x = [] \<or> is_eol (last x)" and "t \<noteq> []" and "\<forall>c \<in> set t. \<not> is_eol c"
  shows "splitlines (x @ t) = splitlines x @ [t]"
  using assms(1)
proof (induction x rule: splitlines.induct)
  case 1
  then show ?case using splitlines_single [OF assms(2,3)] by simp
next
  case (2 c s)
  define r where "r = dropWhile not_eol (c # s)"
  have e: "is_eol (last (c # s))" using "2.prems" by simp
  have inl: "last (c # s) \<in> set (c # s)" by (rule last_in_set) simp
  have ne: "\<not> not_eol (last (c # s))" using e by simp
  have tw: "takeWhile not_eol ((c # s) @ t) = takeWhile not_eol (c # s)"
    by (rule takeWhile_append1 [where P = not_eol, OF inl ne])
  have dw: "dropWhile not_eol ((c # s) @ t) = r @ t"
    unfolding r_def by (rule dropWhile_append1 [where P = not_eol, OF inl ne])
  have "r \<noteq> []" unfolding r_def dropWhile_eq_Nil_conv using inl ne by blast
  moreover have "t = [] \<or> hd t \<noteq> lf" using assms(2,3) by (cases t) (auto simp: is_eol_def)
  ultimately have de: "drop_eol (r @ t) = drop_eol r @ t" by (rule drop_eol_append)
  obtain u where u: "c # s = u @ r" using takeWhile_dropWhile_id [of not_eol "c # s"] by (metis r_def)
  obtain u' where u': "r = u' @ drop_eol r" using drop_eol_suffix by blast
  have "drop_eol r = [] \<or> is_eol (last (drop_eol r))"
    using e u u' by (metis append_assoc last_appendR)
  then have "splitlines (drop_eol r @ t) = splitlines (drop_eol r) @ [t]" using "2.IH" by (simp add: r_def)
  moreover have "splitlines (c # s @ t) = takeWhile not_eol (c # s) # splitlines (drop_eol (r @ t))"
    using splitlines_Cons_eq [of "(c # s) @ t"] tw dw by simp
  ultimately show ?case using de splitlines_Cons_eq [of "c # s"] by (simp add: r_def)
qed

lemma split_tail:
  assumes "s \<noteq> []" and "\<not> is_eol (last s)"
  obtains x t where "s = x @ t" "x = [] \<or> is_eol (last x)" "t \<noteq> []" "\<forall>c \<in> set t. \<not> is_eol c"
proof -
  define tw where "tw = takeWhile not_eol (rev s)"
  define dw where "dw = dropWhile not_eol (rev s)"
  have "rev s = tw @ dw" by (simp add: tw_def dw_def)
  then have s: "s = rev dw @ rev tw" by (metis rev_append rev_rev_ident)
  have "is_eol (hd dw)" if dne: "dw \<noteq> []"
  proof -
    obtain a l where al: "dw = a # l" using dne by (cases dw) auto
    then have "dropWhile not_eol (rev s) = a # l" by (simp add: dw_def)
    then have "is_eol a" by (simp add: dropWhile_eq_Cons_conv)
    then show ?thesis using al by simp
  qed
  then have "rev dw = [] \<or> is_eol (last (rev dw))" by (cases dw) simp_all
  moreover have "rev tw \<noteq> []" using assms by (cases s rule: rev_cases) (auto simp: tw_def)
  moreover have "\<forall>c \<in> set (rev tw). \<not> is_eol c" by (auto simp: tw_def dest: set_takeWhileD)
  ultimately show ?thesis using that s by blast
qed

text \<open>The test of \<open>iter_lines\<close> for a pending tail holds exactly when the text does not end
  with a line terminator.\<close>

lemma pending_cond:
  "(splitlines s \<noteq> [] \<and> last (splitlines s) \<noteq> [] \<and> s \<noteq> [] \<and> last (last (splitlines s)) = last s) \<longleftrightarrow>
   (s \<noteq> [] \<and> \<not> is_eol (last s))"
proof
  assume a: "splitlines s \<noteq> [] \<and> last (splitlines s) \<noteq> [] \<and> s \<noteq> [] \<and> last (last (splitlines s)) = last s"
  then have "last (splitlines s) \<in> set (splitlines s)" by simp
  then have "\<forall>c \<in> set (last (splitlines s)). \<not> is_eol c" by (rule splitlines_eol_free)
  then show "s \<noteq> [] \<and> \<not> is_eol (last s)" using a by (metis last_in_set)
next
  assume "s \<noteq> [] \<and> \<not> is_eol (last s)"
  then obtain x t where "s = x @ t" "x = [] \<or> is_eol (last x)" "t \<noteq> []" "\<forall>c \<in> set t. \<not> is_eol c"
    by (blast elim: split_tail)
  then show "splitlines s \<noteq> [] \<and> last (splitlines s) \<noteq> [] \<and> s \<noteq> [] \<and> last (last (splitlines s)) = last s"
    by (simp add: splitlines_tail)
qed

lemma iter_lines_from_segments:
  assumes "\<forall>p. pending = Some p \<longrightarrow> p \<noteq> [] \<and> (\<forall>c \<in> set p. \<not> is_eol c)"
  shows "filter (\<lambda>l. l \<noteq> []) (iter_lines_from pending cs) =
           segments ((case pending of None \<Rightarrow> [] | Some p \<Rightarrow> p) @ concat cs)"
  using assms
proof (induction cs arbitrary: pending)
  case Nil
  then show ?case by (cases pending) (auto simp: segments_def split_all_eol_free)
next
  case (Cons ck cs)
  define C where "C = (case pending of None \<Rightarrow> ck | Some p \<Rightarrow> p @ ck)"
  have text_eq: "(case pending of None \<Rightarrow> [] | Some p \<Rightarrow> p) @ concat (ck # cs) = C @ concat cs"
    by (cases pending) (simp_all add: C_def)
  have unf: "iter_lines_from pending (ck # cs) =
      (if splitlines C \<noteq> [] \<and> last (splitlines C) \<noteq> [] \<and> C \<noteq> [] \<and> last (last (splitlines C)) = last C
       then butlast (splitlines C) @ iter_lines_from (Some (last (splitlines C))) cs
       else splitlines C @ iter_lines_from None cs)"
    by (simp only: iter_lines_from.simps Let_def C_def)
  show ?case
  proof (cases "C \<noteq> [] \<and> \<not> is_eol (last C)")
    case True
    then obtain x t where xt: "C = x @ t" "x = [] \<or> is_eol (last x)" "t \<noteq> []" "\<forall>c \<in> set t. \<not> is_eol c"
      by (blast elim: split_tail)
    then have sl: "splitlines C = splitlines x @ [t]" by (simp add: splitlines_tail)
    have "filter (\<lambda>l. l \<noteq> []) (iter_lines_from pending (ck # cs)) =
        filter (\<lambda>l. l \<noteq> []) (splitlines x) @ filter (\<lambda>l. l \<noteq> []) (iter_lines_from (Some t) cs)"
      using True pending_cond [of C] unfolding unf by (simp add: sl)
    also have "\<dots> = segments x @ segments (t @ concat cs)"
      using Cons.IH [of "Some t"] xt(3,4) by (simp add: splitlines_segments)
    also have "\<dots> = segments (C @ concat cs)" using xt(1,2) by (simp add: segments_append)
    finally show ?thesis unfolding text_eq .
  next
    case False
    have nc: "\<not> (splitlines C \<noteq> [] \<and> last (splitlines C) \<noteq> [] \<and> C \<noteq> [] \<and>
        last (last (splitlines C)) = last C)"
      unfolding pending_cond using False .
    have "iter_lines_from pending (ck # cs) = splitlines C @ iter_lines_from None cs"
      unfolding unf using nc by (rule if_not_P)
    then have "filter (\<lambda>l. l \<noteq> []) (iter_lines_from pending (ck # cs)) =
        filter (\<lambda>l. l \<noteq> []) (splitlines C) @ filter (\<lambda>l. l \<noteq> []) (iter_lines_from None cs)"
      by simp
    also have "\<dots> = segments C @ segments (concat cs)" using Cons.IH [of None] by (simp add: splitlines_segments)
    also have "\<dots> = segments (C @ concat cs)" using False by (intro segments_append [symmetric]) auto
    finally show ?thesis unfolding text_eq .
  qed
qed

text \<open>A \<open>\r\n\<close> cut by a chunk boundary yields an extra empty line.\<close>

lemma iter_lines_crlf_split:
  "iter_lines [''a'' @ [cr], lf # ''b''] = [''a'', [], ''b''] \<and> splitlines (''a'' @ [cr, lf] @ ''b'') = [''a'', ''b'']"
  by (simp add: iter_lines_def is_eol_def drop_eol_def)

section \<open>Properties\<close>

text \<open>
  C10: streaming does not change the lines that matter: for every division of the body
  into chunks, the non-empty lines \<open>iter_lines\<close> yields are, in order, the non-empty lines
  of \<open>splitlines\<close> on the whole body. (The empty lines may differ: a \<open>\r\n\<close> cut by a
  chunk boundary yields an extra empty line.)
\<close>

theorem iter_lines_chunking:
  "filter (\<lambda>l. l \<noteq> []) (iter_lines chunks) = filter (\<lambda>l. l \<noteq> []) (splitlines (concat chunks))"
  using iter_lines_from_segments [of None chunks] by (simp add: iter_lines_def splitlines_segments)

text \<open>
  C9: \<open>get_data\<close> does not depend on how the network cuts the body into chunks: its result
  on a streamed response equals its result on the same body received in one piece. The
  \<open>if line:\<close> test of the loop absorbs the extra empty lines of \<open>iter_lines\<close>.
\<close>

theorem get_data_chunking:
  "get_data (stream_response status_code chunks) = get_data (stream_response status_code [concat chunks])"
proof -
  have "filter (\<lambda>l. l \<noteq> []) (iter_lines chunks) = filter (\<lambda>l. l \<noteq> []) (iter_lines [concat chunks])"
    using iter_lines_from_segments [of None chunks] iter_lines_from_segments [of None "[concat chunks]"]
    by (simp add: iter_lines_def)
  then have "decode_lines (iter_lines chunks) [] = decode_lines (iter_lines [concat chunks]) []"
    by (metis decode_lines_filter)
  then show ?thesis by (simp add: stream_response_def get_data_def)
qed

end
