(* ===== verification/DecodeLoop.thy ===== *)
theory DecodeLoop
  imports RecordSource
begin

text \<open>
  The loop of \<open>get_data\<close> (\<open>task.py\<close> lines 34-44) as a transition system: a state is
  the loop in progress (the lines not yet read and \<open>json_objects\<close>), the loop finished
  with its list, or the loop stopped by the \<open>except\<close> clause or an exception. One step
  reads one line: an empty line is skipped, a decoded line is appended, a line that
  \<open>json.loads\<close> rejects stops the loop. The theory shows that a run of the relation
  reaches the result of \<open>decode_lines\<close> (\<open>decode_lines_steps\<close>) and that every state
  reachable from the start satisfies an invariant relating the list built so far to the
  lines read.
\<close>

datatype loop_state = Loop "string list" "json list" | Done "json list" | Stopped failure

inductive decode_step :: "loop_state \<Rightarrow> loop_state \<Rightarrow> bool" where
  keep_alive: "decode_step (Loop ([] # lines) json_objects) (Loop lines json_objects)"
| append_object: "line \<noteq> [] \<Longrightarrow> json_loads line = Inr json_object \<Longrightarrow>
    decode_step (Loop (line # lines) json_objects) (Loop lines (json_objects @ [json_object]))"
| decode_error: "line \<noteq> [] \<Longrightarrow> json_loads line = Inl e \<Longrightarrow>
    decode_step (Loop (line # lines) json_objects) (Stopped (decode_failure e))"
| loop_end: "decode_step (Loop [] json_objects) (Done json_objects)"

code_pred decode_step .

inductive_cases decode_step_LoopE: "decode_step (Loop lines json_objects) t"
inductive_cases decode_step_DoneE [elim!]: "decode_step (Done json_objects) t"
inductive_cases decode_step_StoppedE [elim!]: "decode_step (Stopped e) t"

fun loop_outcome :: "json list res \<Rightarrow> loop_state" where
  "loop_outcome (Inl e) = Stopped e"
| "loop_outcome (Inr json_objects) = Done json_objects"

text \<open>
  The invariant of the states reachable from \<open>Loop lines []\<close>: the lines read so far are
  a prefix of \<open>lines\<close> and \<open>json_objects\<close> holds the decodings of their non-empty lines,
  in order; a finished loop holds the decodings of all non-empty lines; a stopped loop
  never lets a \<open>JSONDecodeError\<close> escape.
\<close>

fun loop_inv :: "string list \<Rightarrow> loop_state \<Rightarrow> bool" where
  "loop_inv lines (Loop rest json_objects) =
     (drop (length lines - length rest) lines = rest \<and> length rest \<le> length lines \<and>
      list_all2 (\<lambda>l j. json_loads l = Inr j)
        (filter (\<lambda>l. l \<noteq> []) (take (length lines - length rest) lines)) json_objects)"
| "loop_inv lines (Done json_objects) =
     list_all2 (\<lambda>l j. json_loads l = Inr j) (filter (\<lambda>l. l \<noteq> []) lines) json_objects"
| "loop_inv lines (Stopped e) = (e \<noteq> Raised JSONDecodeError)"

section \<open>Lemmas\<close>

lemma decode_lines_steps: "decode_step\<^sup>*\<^sup>* (Loop lines acc) (loop_outcome (decode_lines lines acc))"
proof (induction lines arbitrary: acc)
  case Nil
  then show ?case by (auto intro: decode_step.loop_end)
next
  case (Cons line lines)
  show ?case
  proof (cases "line = []")
    case True
    then show ?thesis using Cons.IH [of acc] by (auto intro: converse_rtranclp_into_rtranclp decode_step.keep_alive)
  next
    case False
    then show ?thesis
    proof (cases "json_loads line")
      case (Inl e)
      have st: "decode_step (Loop (line # lines) acc) (Stopped (decode_failure e))"
        using False Inl by (rule decode_step.decode_error)
      have "decode_lines (line # lines) acc = Inl (decode_failure e)"
        using False Inl by (simp add: decode_failure_def)
      then show ?thesis using r_into_rtranclp [where r = decode_step, OF st] by simp
    next
      case (Inr j)
      then show ?thesis using False Cons.IH [of "acc @ [j]"]
        by (auto intro: converse_rtranclp_into_rtranclp decode_step.append_object)
    qed
  qed
qed

text \<open>Reading one line moves it from the unread suffix to the read prefix.\<close>

lemma loop_inv_Loop_Cons:
  assumes "drop (length lines - length (l # rest)) lines = l # rest" and "length (l # rest) \<le> length lines"
  shows "drop (length lines - length rest) lines = rest \<and> length rest \<le> length lines \<and>
    take (length lines - length rest) lines = take (length lines - length (l # rest)) lines @ [l]"
proof -
  let ?k = "length lines - length (l # rest)"
  have k: "?k < length lines" using assms(2) by simp
  have n: "lines ! ?k = l" using hd_drop_conv_nth [OF k] assms(1) by simp
  have "lines ! ?k # drop (Suc ?k) lines = drop ?k lines" by (rule Cons_nth_drop_Suc [OF k])
  then have "drop (Suc ?k) lines = rest" using assms(1) by simp
  moreover have "take (Suc ?k) lines = take ?k lines @ [l]" using take_Suc_conv_app_nth [OF k] n by simp
  moreover have "length lines - length rest = Suc ?k" using assms(2) by simp
  ultimately show ?thesis using assms(2) by simp
qed

lemma loop_inv_step: "decode_step s t \<Longrightarrow> loop_inv lines s \<Longrightarrow> loop_inv lines t"
proof (induction rule: decode_step.induct)
  case (keep_alive rest acc)
  then show ?case using loop_inv_Loop_Cons [of lines "[]" rest] by simp
next
  case (append_object l j rest acc)
  then show ?case using loop_inv_Loop_Cons [of lines l rest] by (auto intro: list_all2_appendI)
next
  case (decode_error l e rest acc)
  then show ?case by (simp add: decode_failure_def)
next
  case (loop_end acc)
  then show ?case by simp
qed

section \<open>Properties\<close>

text \<open>
  C11: every state the loop reaches from \<open>Loop lines []\<close> satisfies the invariant: the list
  holds, in order, the decodings of the non-empty lines read so far (of all of them once
  the loop has finished), and a stopped loop never lets a \<open>JSONDecodeError\<close> escape.
\<close>

theorem decode_loop_invariant: "decode_step\<^sup>*\<^sup>* (Loop lines []) s \<Longrightarrow> loop_inv lines s"
proof (induction rule: rtranclp_induct)
  case base
  then show ?case by simp
next
  case (step u v)
  from step.hyps(2) step.IH show ?case by (rule loop_inv_step)
qed

section \<open>Witnesses\<close>

theorem decode_loop_invariant_witness: "loop_inv [''[1]'', '''', ''2''] (Done [JArr [JInt 1], JInt 2])"
proof -
  have "decode_step\<^sup>*\<^sup>* (Loop [''[1]'', '''', ''2''] []) (Done [JArr [JInt 1], JInt 2])"
    using decode_lines_steps [of "[''[1]'', '''', ''2'']" "[]"] by (simp add: json_text_simps)
  then show ?thesis by (rule decode_loop_invariant)
qed

end
