(* ===== verification/Spec2Isabelle.thy ===== *)
theory Spec2Isabelle
  imports Statistics RecordSource Presentation Transport DecodeLoop
begin

text \<open>
  \<^bold>\<open>A verification development of \<open>src/task.py\<close> (Barny17/fakerest-test).\<close>

  \<^bold>\<open>The program.\<close> One Python script: \<open>get_data\<close> (lines 21-47) fetches a
  newline-delimited JSON feed and decodes it line by line with \<open>json.loads\<close>;
  \<open>process_json\<close> (lines 70-122) turns the records into a pandas DataFrame
  (\<open>pd.json_normalize\<close>), gates it with \<open>check_dataframe\<close> (lines 125-142) and computes
  the statistics: mean age and mean friend count per city, rounded; the first person
  with the most friends; the most common name and the most common hobby of all friends,
  with their counts. \<open>print_results\<close> (lines 145-163) prints them and
  \<open>save_dataframe_to_json\<close> (lines 166-171) writes them to \<open>answer.json\<close>; the
  \<open>__main__\<close> block (lines 175-188) runs fetch, process, print and save in sequence.
  \<open>save_json\<close> and \<open>load_json\<close> (lines 50-67) are file helpers around \<open>json.dump\<close> and
  \<open>json.load\<close>. The components interact by passing values (the decoded records, the
  DataFrame, the result) and, at the end, through the world of files and standard output.

  \<^bold>\<open>The theories.\<close>
  \<^item> \<open>Prelude\<close>: how a run stops (\<open>failure\<close>: the two \<open>exit(-1)\<close> calls, an uncaught
    Python exception \<open>Raised e\<close>, \<open>Fuel_Exhausted\<close> for a decoder out of fuel, or
    \<open>Outside_Model\<close> for inputs whose Python semantics the model leaves out), the result
    type \<open>'a res\<close> with \<open>res_bind\<close>, the fail-fast traversal \<open>mapM_res\<close>, Python's
    \<open>xs[0]\<close>, order-preserving key collection \<open>add_unique\<close>, the first-maximum scan
    \<open>max_by\<close> and the shared lemmas on them.
  \<^item> \<open>Frequency\<close>: \<open>collections.Counter\<close> as an insertion-ordered association list
    (\<open>Counter\<close>, \<open>count_elements\<close>, \<open>counter_get\<close>) and \<open>most_common(1)\<close>
    (\<open>most_common1\<close>), against reference definitions (\<open>counter_spec\<close>,
    \<open>most_common_ref\<close>).
  \<^item> \<open>Json\<close>: JSON values (\<open>json\<close>), pandas' \<open>json_normalize\<close> (\<open>normalise_json\<close>,
    \<open>normalise_json_object\<close>, \<open>normalise_row\<close>, \<open>json_normalize\<close>), the DataFrame as a
    record of columns and rows (\<open>frame\<close>), \<open>df.empty\<close> and \<open>df[col]\<close>.
  \<^item> \<open>Validator\<close>: \<open>check_dataframe\<close> with its report (\<open>check_report\<close>).
  \<^item> \<open>GroupBy\<close>: \<open>groupby(...).mean().round().astype(int)\<close> (\<open>groupby_mean\<close>,
    \<open>round_half_even\<close>, \<open>round_astype_int\<close>) and \<open>idxmax\<close>.
  \<^item> \<open>Aggregator\<close>: \<open>process_json\<close> itself, the cell readers that follow what Python does
    with each value, the hobby loop (\<open>all_hobbies\<close>, \<open>extend_hobbies\<close>) and the
    \<open>result\<close> record of the eight output fields.
  \<^item> \<open>Statistics\<close>: the abstract contract. A \<open>person\<close> record (id, name, city, age,
    friends with hobbies) encoded as a feed record by \<open>person_json\<close>, and
    \<open>statistics\<close>, the result the program promises over a list of persons, written with
    plain list functions (\<open>per_city\<close>, \<open>mean\<close>, \<open>most_friends\<close>, \<open>most_common_ref\<close>)
    and no pandas.
  \<^item> \<open>JsonText\<close>: CPython 3.11's \<open>json\<close> as the script uses it. The decoder
    \<open>json_loads\<close> follows the C scanner (\<open>scanstring\<close>, \<open>scan_number\<close>, \<open>scan_once\<close>,
    \<open>parse_array\<close>, \<open>parse_object\<close>); the encoder \<open>iterencode\<close> is the pure-Python
    \<open>_make_iterencode\<close> that \<open>json.dump(..., indent=4)\<close> runs, producing its chunks as a
    text and the exception that interrupts it (\<open>out\<close>), so that a partial write is a value.
  \<^item> \<open>RecordSource\<close>: \<open>get_data\<close> over a \<open>response\<close> (the HTTP transport's answer), with
    \<open>json_loads\<close> for each non-empty line and \<open>decode_failure\<close> for the \<open>except\<close> clause.
  \<^item> \<open>Transport\<close>: the lines the response yields: \<open>requests\<close>' \<open>Response.iter_lines\<close>
    (\<open>iter_lines_from\<close> with its pending tail, \<open>bytes.splitlines\<close> as \<open>splitlines\<close>) over
    any division of the body into network chunks, and \<open>stream_response\<close>; the reference
    \<open>segments\<close> cuts a text at every end-of-line character.
  \<^item> \<open>DecodeLoop\<close>: the loop of \<open>get_data\<close> as a transition system (\<open>loop_state\<close>,
    the inductive \<open>decode_step\<close>) with its final states and its invariant.
  \<^item> \<open>Persistence\<close>: the \<open>world\<close> record (files as a map from path to text, standard
    output as text), \<open>print_line\<close>, \<open>write_file\<close>, \<open>save_json\<close>, \<open>load_json\<close>, the
    records form of the result (\<open>records_json\<close>) and \<open>save_dataframe_to_json\<close>, whose
    pandas encoder is a parameter.
  \<^item> \<open>Presentation\<close>: \<open>print_results\<close> as the text it appends to standard output, and a
    reader of that text (\<open>read_report\<close>) to state what the report determines.
  \<^item> this theory: the fetch-and-process run \<open>main\<close>, the whole block \<open>main_run\<close> over the
    world, and the properties that span components.

  \<^bold>\<open>What the lemmas show.\<close> Counter equals the reference counter and \<open>most_common(1)\<close>
  picks the element of maximal count whose first occurrence is earliest; flattening gives
  flat rows and is idempotent; the check accepts exactly the non-empty DataFrames with all
  required columns and names the missing ones; rounding is round-half-to-even (the
  nearest integer, the even one at a tie); groups partition the rows with a present key, each group's mean
  depends only on its rows, keys come out sorted; \<open>idxmax\<close> is the first maximum. The
  refinement theorem of \<open>Statistics\<close> says that on every feed of well-formed persons the
  detailed model of \<open>process_json\<close> equals \<open>statistics\<close>, and the spec's properties over
  persons follow from it. For \<open>json\<close>: the decoder never runs out of its fuel (a lemma),
  inverts the encoder on every well-formed value, and every value it returns the encoder
  writes without error and the decoder reads back unchanged; the encoder
  raises \<open>ValueError\<close> exactly on integers beyond 4300 digits. \<open>get_data\<close> decodes
  fail-fast and its \<open>except\<close> clause misses that \<open>ValueError\<close>. Streaming does not
  matter: \<open>iter_lines\<close> yields the non-empty lines of the whole body whatever the
  chunks, and \<open>get_data\<close> gives the same result for every chunking. The decoding loop
  as a step relation reaches the result of \<open>decode_lines\<close>, and every reachable state
  satisfies its invariant (rule induction on the closure). \<open>save_json\<close> and
  \<open>load_json\<close> round-trip; \<open>save_json\<close> replaces the whole content of its file by the
  encoder's text, touches no other file, and leaves a truncated file when the dump raises; the printed report determines the per-city dicts; the whole run
  on a feed of persons is the abstract statistics followed by printing and saving, and a
  run that fails writes no file. Every \<open>raise\<close>, \<open>exit\<close> and early return of
  \<open>task.py\<close> and of the library code it runs is a value of the model, except CPython's
  \<open>RecursionError\<close> (see below). Concrete runs, among them the spec's own scenario, are
  evaluated by the kernel as examples.

  \<^bold>\<open>Choices and bounds.\<close> Python's integers are \<open>int\<close>; means are exact rationals
  (pandas computes them in float64, equal while sums stay below \<open>2^53\<close>); strings are
  \<open>char list\<close>, one character per code point; a feed line is its decoded text; a JSON
  object is the list of its items. Every loop of the code runs over a finite list and
  is structural recursion, except the recursive descent of \<open>json.loads\<close>, which has the
  fuel \<open>2 * length s + 1\<close>: each call consumes input and a container element costs two
  units, which is enough for every text (lemma \<open>scan_once_fuel\<close>). Opening a file for
  writing always succeeds in the model.

  \<^bold>\<open>Not modelled.\<close> The network request itself (\<open>requests.get\<close>: the status code
  and the body's chunks are inputs, and a feed line is its bytes read as characters);
  pandas' C encoder behind \<open>DataFrame.to_json\<close> (a parameter of
  \<open>save_dataframe_to_json\<close>; its layout could not be checked against pandas); the
  diagnostic prints of \<open>get_data\<close> and \<open>check_dataframe\<close>, whose texts include Python's
  exception messages; operating-system failures of \<open>open\<close>; JSON floats, NaN/Infinity
  and code points above 0xFF in the decoder, and values outside the modelled fragment
  of \<open>process_json\<close> (numbers or booleans as keys, non-integer ages, nested lists as
  records), which give \<open>Outside_Model\<close> rather than Python's behaviour. CPython's
  \<open>RecursionError\<close>: \<open>json.loads\<close> and \<open>json.dump\<close> raise it on a document nested
  about a thousand levels deep (the interpreter's recursion limit), and the model
  decodes and encodes such a document like any other; there \<open>get_data\<close>, whose
  \<open>except\<close> clause does not catch \<open>RecursionError\<close>, and \<open>save_json\<close> differ from
  Python, which ends the run with that exception.
\<close>

section \<open>The run\<close>

text \<open>
  \<open>__main__\<close>: \<open>results_df = process_json(get_data(demo_url))\<close>.
\<close>

definition main :: "response \<Rightarrow> result res" where
  "main response = res_bind (get_data response) process_json"

text \<open>Two lines of a feed, the second record without a \<open>city\<close> field.\<close>

definition feed_missing_city :: "string list" where
  \<open>feed_missing_city =
     [''{"id": 1, "name": "A", "city": "X", "age": 10, "friends": [{"hobbies": ["chess"]}]}'',
      ''{"id": 2, "name": "B", "age": 50, "friends": [{"hobbies": ["golf"]}]}'']\<close>

text \<open>
  The whole \<open>__main__\<close> block: fetch and process, \<open>print_results(results_df)\<close>, then
  \<open>save_dataframe_to_json(results_df, json_output_file)\<close> with \<open>json_output_file =
  "answer.json"\<close>; the global \<open>results_df\<close> the save function reads is the value just
  assigned. A failure of fetch or processing ends the run before anything is printed by
  \<open>print_results\<close> or written. pandas' encoder is the parameter \<open>to_json\<close>.
\<close>

definition main_run :: "(json \<Rightarrow> string res) \<Rightarrow> response \<Rightarrow> world \<Rightarrow> unit io" where
  "main_run to_json response w =
     (let json_output_file = ''answer.json'' in
      case main response of
        Inl e \<Rightarrow> (Inl e, w)
      | Inr results_df \<Rightarrow>
          save_dataframe_to_json to_json results_df results_df json_output_file (print_results results_df w))"

text \<open>A person of the feed and the line that encodes it.\<close>

definition person_a :: person where
  "person_a = \<lparr>person_id = 1, person_name = ''A'', person_city = ''X'', person_age = 10,
                person_friends = [\<lparr>hobbies = [''chess'']\<rparr>]\<rparr>"

definition line_a :: string where
  \<open>line_a = ''{"id": 1, "name": "A", "city": "X", "age": 10, "friends": [{"hobbies": ["chess"]}]}''\<close>

declare main_def [pipeline_simps]

section \<open>Properties of the whole run\<close>

text \<open>
  C28: a request answered with a status other than 200 is not reported as a transport
  failure: \<open>get_data\<close> returns \<open>None\<close>, and \<open>pd.json_normalize(None)\<close> raises
  \<open>NotImplementedError\<close>, so the run ends with an uncaught exception.
\<close>

theorem main_non_200:
  "status \<noteq> 200 \<Longrightarrow> main (Response status ls) = raise NotImplementedError"
  by (simp add: main_def get_data_def process_json_def json_normalize_def)

text \<open>
  a feed of status 200 whose lines are all empty gives the empty DataFrame, which the
  check rejects ("no data"): the run ends with \<open>exit(-1)\<close>.
\<close>

theorem main_blank_feed:
  "list_all (\<lambda>l. l = []) ls \<Longrightarrow> main (Response 200 ls) = Inl CheckExit"
proof -
  assume "list_all (\<lambda>l. l = []) ls"
  then have "decode_lines ls [] = Inr []" by (induction ls) auto
  then show ?thesis
    by (simp add: main_def get_data_def process_json_def json_normalize_def check_dataframe_def
        check_report_def df_empty_def)
qed

text \<open>
  when every non-empty line either decodes or is not JSON, and one of them is not
  JSON, the whole run ends with \<open>exit(-1)\<close> before any aggregation, whatever the other
  lines hold: there is no partial result.
\<close>

theorem main_decode_error:
  assumes "list_all (\<lambda>l. l = [] \<or> (\<exists>j. json_loads l = Inr j) \<or> json_loads l = raise JSONDecodeError) ls"
    and "l \<in> set ls" and "l \<noteq> []" and "json_loads l = raise JSONDecodeError"
  shows "main (Response 200 ls) = Inl DecodeExit"
proof (cases "decode_lines ls []")
  case (Inl e)
  then obtain pre l' post e' where "ls = pre @ l' # post" "l' \<noteq> []" "json_loads l' = Inl e'"
    "e = decode_failure e'" by (blast dest: decode_lines_Inl)
  with assms(1) have "e = DecodeExit" by (auto simp: decode_failure_def raise_def)
  with Inl show ?thesis by (simp add: main_def get_data_def)
next
  case (Inr js)
  then have "list_all2 (\<lambda>l j. json_loads l = Inr j) (filter (\<lambda>l. l \<noteq> []) ls) js"
    by (auto simp: decode_lines_Inr_iff)
  moreover have "l \<in> set (filter (\<lambda>l. l \<noteq> []) ls)" using assms(2,3) by simp
  ultimately obtain j where "json_loads l = Inr j"
    by (blast dest: list_all2_in_set1)
  with assms(4) show ?thesis by (simp add: raise_def)
qed

text \<open>
  Example: the check is on columns, not on records: a record without a \<open>city\<close> passes it when
  another record has one, and it is then left out of the per-city statistics without an
  error, so the per-city groups no longer add up to the number of records.
\<close>

theorem main_missing_city_dropped:
  "main (Response 200 feed_missing_city) =
     Inr \<lparr>average_age_per_city = [(''X'', 10)],
          average_friends_per_city = [(''X'', 1)],
          person_with_most_friends = Some ''A'', most_friends_count = 1,
          most_common_name_count = 1, most_common_name_all_cities = Some ''A'',
          most_common_hobby = ''chess'', most_common_hobby_count = 1\<rparr>"
proof -
  have "get_data (Response 200 feed_missing_city) =
    Inr (Some [JObj [(''id'', JInt 1), (''name'', JStr ''A''), (''city'', JStr ''X''), (''age'', JInt 10),
                     (''friends'', JArr [spec_friend [''chess'']])],
               JObj [(''id'', JInt 2), (''name'', JStr ''B''), (''age'', JInt 50),
                     (''friends'', JArr [spec_friend [''golf'']])]])"
    by (simp add: get_data_def feed_missing_city_def spec_friend_def json_text_simps)
  then show ?thesis by (simp add: pipeline_simps spec_friend_def del: get_data_def)
qed

text \<open>
  C2: end to end, on a feed whose lines decode to well-formed persons, the run is the
  abstract statistics followed by the output stage: the report of the result is printed,
  \<open>answer.json\<close> receives the encoder's text of the result in records form, and
  "Results saved to answer.json" is printed last.
\<close>

theorem main_run_end_to_end:
  assumes "list_all2 (\<lambda>l p. json_loads l = Inr (person_json p)) ls ps" and "list_all (\<lambda>l. l \<noteq> []) ls"
    and "statistics ps = Inr r" and "to_json (records_json r) = Inr t"
  shows "main_run to_json (Response 200 ls) w =
           (Inr (), print_line ''Results saved to answer.json'' (write_file ''answer.json'' t (print_results r w)))"
proof -
  have "filter (\<lambda>l. l \<noteq> []) ls = ls" using assms(2) by (simp add: list_all_iff)
  then have "decode_lines ls [] = Inr (map person_json ps)"
    using assms(1) by (auto simp: decode_lines_Inr_iff list_all2_conv_all_nth intro: nth_equalityI)
  then have "main (Response 200 ls) = Inr r"
    using assms(3) by (simp add: main_def get_data_def process_json_statistics)
  then show ?thesis using assms(4) by (simp add: main_run_def save_dataframe_to_json_def Let_def)
qed

text \<open>
  C26: a run that does not complete changes no file: when fetching or processing fails,
  or pandas' encoder raises, \<open>answer.json\<close> (and every other file) is left as it was,
  so an answer of an earlier run stays in place.
\<close>

theorem main_run_no_answer:
  assumes "fst (main_run to_json response w) \<noteq> Inr ()"
  shows "files (snd (main_run to_json response w)) = files w"
  using assms by (auto simp: main_run_def save_dataframe_to_json_def Let_def split: sum.splits)

section \<open>Witnesses\<close>

theorem main_non_200_witness: "main (Response 404 [''{}'']) = raise NotImplementedError"
  by (rule main_non_200) simp

theorem main_blank_feed_witness: "main (Response 200 ['''', '''']) = Inl CheckExit"
  by (rule main_blank_feed) simp

theorem main_decode_error_witness:
  "main (Response 200 [''[1]'', ''garbage'', '''']) = Inl DecodeExit"
proof -
  have "json_loads ''[1]'' = Inr (JArr [JInt 1])" "json_loads ''garbage'' = raise JSONDecodeError"
    by (simp_all add: json_text_simps raise_def)
  then show ?thesis by (intro main_decode_error [of _ "''garbage''"]) auto
qed

theorem main_run_end_to_end_witness:
  "main_run (\<lambda>v. Inr ''[]'') (Response 200 [line_a]) \<lparr>files = Map.empty, stdout = []\<rparr> =
     (Inr (), print_line ''Results saved to answer.json''
        (write_file ''answer.json'' ''[]''
          (print_results \<lparr>average_age_per_city = [(''X'', 10)], average_friends_per_city = [(''X'', 1)],
             person_with_most_friends = Some ''A'', most_friends_count = 1,
             most_common_name_count = 1, most_common_name_all_cities = Some ''A'',
             most_common_hobby = ''chess'', most_common_hobby_count = 1\<rparr> \<lparr>files = Map.empty, stdout = []\<rparr>)))"
proof -
  have l: "json_loads line_a = Inr (person_json person_a)"
    by (simp add: line_a_def person_a_def person_json_def person_row_def friend_json_def json_text_simps)
  have s: "statistics [person_a] =
     Inr \<lparr>average_age_per_city = [(''X'', 10)], average_friends_per_city = [(''X'', 1)],
          person_with_most_friends = Some ''A'', most_friends_count = 1,
          most_common_name_count = 1, most_common_name_all_cities = Some ''A'',
          most_common_hobby = ''chess'', most_common_hobby_count = 1\<rparr>"
    by (simp add: process_json_statistics [symmetric] pipeline_simps person_a_def person_json_def
        person_row_def friend_json_def)
  show ?thesis
    by (rule main_run_end_to_end [OF _ _ s]) (simp add: l, simp add: line_a_def, simp)
qed

theorem main_run_no_answer_witness:
  "files (snd (main_run (\<lambda>v. Inr ''[]'') (Response 404 []) \<lparr>files = [''answer.json'' \<mapsto> ''old''], stdout = []\<rparr>)) =
   files \<lparr>files = [''answer.json'' \<mapsto> ''old''], stdout = []\<rparr>"
  by (rule main_run_no_answer) (simp add: main_run_def main_def get_data_def process_json_def json_normalize_def raise_def)

end
